theory Spec2Isabelle
  imports Complex_Main
begin

section \<open>Python values, floats and exceptions\<close>

text \<open>
  The schedule validator (\<^verbatim>\<open>cloud_backend/utils/validation.py\<close>) and the device daemon
  (\<^verbatim>\<open>device_fleet/daemon/battery_daemon.py\<close>) work on untyped JSON-like data: a schedule
  is a list of dictionaries whose values may be anything. The values are modelled by
  \<open>pyval\<close>. Strings are 8-bit character lists. A dictionary is an association list read
  with \<open>map_of\<close> (a Python dictionary has no duplicate keys).

  A float is a real number or one of the three special values. The rounding of float
  arithmetic is not modelled: the only float operations of the code are comparisons with
  the exactly representable bounds 0, 1, 24 and 1000 and one multiplication by an
  efficiency factor.
\<close>

datatype pyfloat = FNum real | FPosInf | FNegInf | FNaN

datatype pyval =
    PyNone
  | PyBool bool
  | PyInt int
  | PyFloat pyfloat
  | PyStr string
  | PyList "pyval list"
  | PyDict "(string \<times> pyval) list"

text \<open>
  The exceptions that the modelled code can meet. \<open>DatabaseError\<close> is
  \<^verbatim>\<open>sqlite3.Error\<close>. \<open>CancelledError\<close> stands for the exceptions that derive from
  \<^verbatim>\<open>BaseException\<close> only, which \<^verbatim>\<open>except Exception\<close> does not catch.
\<close>

datatype exn = ValueError | TypeError | KeyError | OverflowError | AttributeError
  | RecursionError | DatabaseError | CancelledError

fun is_Exception :: "exn \<Rightarrow> bool" where
  "is_Exception CancelledError = False"
| "is_Exception _ = True"

text \<open>Sequencing: an exception of the first computation leaves the whole.\<close>

definition and_then :: "exn + 'a \<Rightarrow> ('a \<Rightarrow> exn + 'b) \<Rightarrow> exn + 'b" where
  "and_then r f = (case r of Inl e \<Rightarrow> Inl e | Inr x \<Rightarrow> f x)"

fun flt_less :: "pyfloat \<Rightarrow> pyfloat \<Rightarrow> bool" where
  "flt_less FNaN _ = False"
| "flt_less _ FNaN = False"
| "flt_less (FNum a) (FNum b) = (a < b)"
| "flt_less (FNum a) FPosInf = True"
| "flt_less (FNum a) FNegInf = False"
| "flt_less FPosInf _ = False"
| "flt_less FNegInf FNegInf = False"
| "flt_less FNegInf _ = True"

text \<open>
  \<^verbatim>\<open>float(x)\<close>. The conversion of a string is the library's and is taken as the
  parameter \<open>F\<close> (\<open>None\<close> is its \<^verbatim>\<open>ValueError\<close>). An integer too large for a double
  raises \<^verbatim>\<open>OverflowError\<close>.
\<close>

fun py_float :: "(string \<Rightarrow> pyfloat option) \<Rightarrow> pyval \<Rightarrow> exn + pyfloat" where
  "py_float F (PyBool b) = Inr (FNum (if b then 1 else 0))"
| "py_float F (PyInt n) =
     (if \<bar>n\<bar> \<ge> 2 ^ 1024 - 2 ^ 970 then Inl OverflowError else Inr (FNum (of_int n)))"
| "py_float F (PyFloat f) = Inr f"
| "py_float F (PyStr s) = (case F s of None \<Rightarrow> Inl ValueError | Some f \<Rightarrow> Inr f)"
| "py_float F _ = Inl TypeError"

text \<open>\<^verbatim>\<open>isinstance(x, int)\<close> holds for integers and booleans; this is the integer then.\<close>

fun int_instance :: "pyval \<Rightarrow> int option" where
  "int_instance (PyInt n) = Some n"
| "int_instance (PyBool b) = Some (if b then 1 else 0)"
| "int_instance _ = None"

text \<open>\<^verbatim>\<open>x == n\<close> for an integer \<open>n\<close>: numbers compare by value across the numeric types.\<close>

fun py_eq_int :: "pyval \<Rightarrow> int \<Rightarrow> bool" where
  "py_eq_int (PyInt m) n = (m = n)"
| "py_eq_int (PyBool b) n = ((if b then 1 else 0) = n)"
| "py_eq_int (PyFloat (FNum r)) n = (r = of_int n)"
| "py_eq_int _ n = False"

text \<open>Truthiness, as \<^verbatim>\<open>if x:\<close> tests it.\<close>

fun truthy :: "pyval \<Rightarrow> bool" where
  "truthy PyNone = False"
| "truthy (PyBool b) = b"
| "truthy (PyInt n) = (n \<noteq> 0)"
| "truthy (PyFloat f) = (f \<noteq> FNum 0)"
| "truthy (PyStr s) = (s \<noteq> [])"
| "truthy (PyList xs) = (xs \<noteq> [])"
| "truthy (PyDict kvs) = (kvs \<noteq> [])"

section \<open>Datetimes\<close>

text \<open>
  A \<^verbatim>\<open>datetime\<close> with its fields; \<open>tzinfo\<close> is the UTC offset in microseconds of an
  aware datetime and \<open>None\<close> for a naive one. The proleptic Gregorian ordinal is computed as
  the library does (\<^verbatim>\<open>_ymd2ord\<close>).
\<close>

datatype datetime = Datetime (year: int) (month: int) (day: int) (hour: int) (minute: int)
  (second: int) (microsecond: int) (tzinfo: "int option")

definition is_leap :: "int \<Rightarrow> bool" where
  "is_leap y = (y mod 4 = 0 \<and> (if y mod 100 = 0 then y mod 400 = 0 else True))"

definition days_in_month :: "int \<Rightarrow> int \<Rightarrow> int" where
  "days_in_month y m =
     (if m = 2 \<and> is_leap y then 29
      else [0, 31, 28, 31, 30, 31, 30, 31, 31, 30, 31, 30, 31] ! nat m)"

definition days_before_year :: "int \<Rightarrow> int" where
  "days_before_year y = (let p = y - 1 in p * 365 + p div 4 - p div 100 + p div 400)"

definition days_before_month :: "int \<Rightarrow> int \<Rightarrow> int" where
  "days_before_month y m =
     [0, 0, 31, 59, 90, 120, 151, 181, 212, 243, 273, 304, 334] ! nat m
       + (if m > 2 \<and> is_leap y then 1 else 0)"

definition ymd2ord :: "int \<Rightarrow> int \<Rightarrow> int \<Rightarrow> int" where
  "ymd2ord y m d = days_before_year y + days_before_month y m + d"

definition check_date :: "int \<Rightarrow> int \<Rightarrow> int \<Rightarrow> bool" where
  "check_date y m d =
     (1 \<le> y \<and> y \<le> 9999 \<and> 1 \<le> m \<and> m \<le> 12 \<and> 1 \<le> d \<and> d \<le> days_in_month y m)"

text \<open>Microseconds of the wall-clock fields since the start of ordinal day 0.\<close>

definition wall_us :: "datetime \<Rightarrow> int" where
  "wall_us t =
     (((ymd2ord (year t) (month t) (day t) * 24 + hour t) * 60 + minute t) * 60 + second t)
        * 1000000 + microsecond t"

text \<open>The instant that comparisons and differences use: an aware datetime is shifted by
  its offset.\<close>

definition instant :: "datetime \<Rightarrow> int" where
  "instant t = wall_us t - (case tzinfo t of None \<Rightarrow> 0 | Some off \<Rightarrow> off)"

definition aware :: "datetime \<Rightarrow> bool" where
  "aware t = (tzinfo t \<noteq> None)"

text \<open>
  Ordering and subtraction of a naive and an aware datetime raise \<^verbatim>\<open>TypeError\<close>;
  \<^verbatim>\<open>!=\<close> does not raise, it holds for such a pair. A \<^verbatim>\<open>timedelta\<close> is its number of
  microseconds.
\<close>

definition dt_lt :: "datetime \<Rightarrow> datetime \<Rightarrow> exn + bool" where
  "dt_lt a b = (if aware a = aware b then Inr (instant a < instant b) else Inl TypeError)"

definition dt_le :: "datetime \<Rightarrow> datetime \<Rightarrow> exn + bool" where
  "dt_le a b = (if aware a = aware b then Inr (instant a \<le> instant b) else Inl TypeError)"

definition dt_gt :: "datetime \<Rightarrow> datetime \<Rightarrow> exn + bool" where
  "dt_gt a b = (if aware a = aware b then Inr (instant a > instant b) else Inl TypeError)"

definition dt_ge :: "datetime \<Rightarrow> datetime \<Rightarrow> exn + bool" where
  "dt_ge a b = (if aware a = aware b then Inr (instant a \<ge> instant b) else Inl TypeError)"

definition dt_ne :: "datetime \<Rightarrow> datetime \<Rightarrow> bool" where
  "dt_ne a b = (\<not> (aware a = aware b \<and> instant a = instant b))"

definition dt_sub :: "datetime \<Rightarrow> datetime \<Rightarrow> exn + int" where
  "dt_sub a b = (if aware a = aware b then Inr (instant a - instant b) else Inl TypeError)"

section \<open>The library's \<^verbatim>\<open>strptime\<close>\<close>

text \<open>
  \<^verbatim>\<open>datetime.strptime\<close> turns the format into a regular expression, one group per
  directive, matches it case-insensitively at the start of the string, rejects a match that
  leaves characters over, and converts the matched groups. The model follows these phases
  for the directives that the validator's formats use. A group is a list of alternatives
  in the order in which the backtracking matcher tries them; an alternative is a sequence
  of character classes.
\<close>

datatype directive = DY | Dm | Dd | DH | DM | DS | Df | Dz

datatype fitem = Lit char | Dir directive

fun directive_of :: "char \<Rightarrow> directive option" where
  "directive_of c =
     map_of [(CHR ''Y'', DY), (CHR ''m'', Dm), (CHR ''d'', Dd), (CHR ''H'', DH),
             (CHR ''M'', DM), (CHR ''S'', DS), (CHR ''f'', Df), (CHR ''z'', Dz)] c"

fun compile_fmt :: "string \<Rightarrow> fitem list option" where
  "compile_fmt [] = Some []"
| "compile_fmt [c] = (if c = CHR ''%'' then None else Some [Lit c])"
| "compile_fmt (c # d # cs) =
     (if c = CHR ''%'' then
        (case directive_of d of
           None \<Rightarrow> None
         | Some D \<Rightarrow> map_option ((#) (Dir D)) (compile_fmt cs))
      else map_option ((#) (Lit c)) (compile_fmt (d # cs)))"

definition is_digit :: "char \<Rightarrow> bool" where
  "is_digit c = (c \<in> set ''0123456789'')"

definition one_of :: "string \<Rightarrow> char \<Rightarrow> bool" where
  "one_of cs c = (c \<in> set cs)"

text \<open>One alternative against the start of the string: the matched text and the rest.\<close>

fun seq_match :: "(char \<Rightarrow> bool) list \<Rightarrow> string \<Rightarrow> (string \<times> string) option" where
  "seq_match [] s = Some ([], s)"
| "seq_match (p # ps) [] = None"
| "seq_match (p # ps) (c # s) =
     (if p c then map_option (\<lambda>(t, r). (c # t, r)) (seq_match ps s) else None)"

definition z_fracs :: "(char \<Rightarrow> bool) list list" where
  "z_fracs = map (\<lambda>n. one_of ''.'' # replicate n is_digit) [6, 5, 4, 3, 2, 1] @ [[]]"

definition z_groups :: "(char \<Rightarrow> bool) list list" where
  "z_groups =
     concat (map (\<lambda>c2. map (\<lambda>f. c2 @ [one_of ''012345'', is_digit] @ f) z_fracs)
               [[one_of '':''], []]) @ [[]]"

text \<open>The alternatives of each group, from the library's table of regular expressions:
  \<^verbatim>\<open>Y: \d\d\d\d\<close>, \<^verbatim>\<open>m: 1[0-2]|0[1-9]|[1-9]\<close>,
  \<^verbatim>\<open>d: 3[0-1]|[1-2]\d|0[1-9]|[1-9]| [1-9]\<close>, \<^verbatim>\<open>H: 2[0-3]|[0-1]\d|\d\<close>,
  \<^verbatim>\<open>M: [0-5]\d|\d\<close>, \<^verbatim>\<open>S: 6[0-1]|[0-5]\d|\d\<close>, \<^verbatim>\<open>f: [0-9]{1,6}\<close> and
  \<^verbatim>\<open>z: [+-]\d\d:?[0-5]\d(:?[0-5]\d(\.\d{1,6})?)?|Z\<close>, whose optional and counted
  parts are greedy.\<close>

fun patterns :: "directive \<Rightarrow> (char \<Rightarrow> bool) list list" where
  "patterns DY = [[is_digit, is_digit, is_digit, is_digit]]"
| "patterns Dm = [[one_of ''1'', one_of ''012''], [one_of ''0'', one_of ''123456789''],
                  [one_of ''123456789'']]"
| "patterns Dd = [[one_of ''3'', one_of ''01''], [one_of ''12'', is_digit],
                  [one_of ''0'', one_of ''123456789''], [one_of ''123456789''],
                  [one_of '' '', one_of ''123456789'']]"
| "patterns DH = [[one_of ''2'', one_of ''0123''], [one_of ''01'', is_digit], [is_digit]]"
| "patterns DM = [[one_of ''012345'', is_digit], [is_digit]]"
| "patterns DS = [[one_of ''6'', one_of ''01''], [one_of ''012345'', is_digit], [is_digit]]"
| "patterns Df = map (\<lambda>n. replicate n is_digit) [6, 5, 4, 3, 2, 1]"
| "patterns Dz =
     concat (map (\<lambda>c1. map (\<lambda>g. [one_of ''+-'', is_digit, is_digit] @ c1
                                  @ [one_of ''012345'', is_digit] @ g) z_groups)
               [[one_of '':''], []]) @ [[one_of ''Z'']]"

definition alts :: "directive \<Rightarrow> string \<Rightarrow> (string \<times> string) list" where
  "alts D s = List.map_filter (\<lambda>ps. seq_match ps s) (patterns D)"

text \<open>A literal character of the format matches without regard to case.\<close>

definition to_lower :: "char \<Rightarrow> char" where
  "to_lower c =
     (case map_of (zip ''ABCDEFGHIJKLMNOPQRSTUVWXYZ'' ''abcdefghijklmnopqrstuvwxyz'') c of
        None \<Rightarrow> c | Some l \<Rightarrow> l)"

definition lit_match :: "char \<Rightarrow> char \<Rightarrow> bool" where
  "lit_match c x = (to_lower c = to_lower x)"

fun first_some :: "'a option list \<Rightarrow> 'a option" where
  "first_some [] = None"
| "first_some (None # xs) = first_some xs"
| "first_some (Some x # xs) = Some x"

text \<open>The backtracking match: the groups found so far, and what is left of the string
  after the first complete match.\<close>

fun match_fmt :: "fitem list \<Rightarrow> string \<Rightarrow> (directive \<times> string) list
    \<Rightarrow> ((directive \<times> string) list \<times> string) option" where
  "match_fmt [] s found = Some (found, s)"
| "match_fmt (Lit c # fs) [] found = None"
| "match_fmt (Lit c # fs) (x # s) found =
     (if lit_match c x then match_fmt fs s found else None)"
| "match_fmt (Dir D # fs) s found =
     first_some (map (\<lambda>(t, r). match_fmt fs r (found @ [(D, t)])) (alts D s))"

section \<open>Converting the matched groups\<close>

definition digit_val :: "char \<Rightarrow> int" where
  "digit_val c = of_char c - 48"

definition digits_val :: "string \<Rightarrow> int" where
  "digits_val s = foldl (\<lambda>a c. 10 * a + digit_val c) 0 s"

text \<open>\<^verbatim>\<open>int(s)\<close> on the texts that the groups can hold: decimal digits, after blanks
  (the day group may start with one). Anything else is a \<^verbatim>\<open>ValueError\<close>.\<close>

definition py_int :: "string \<Rightarrow> exn + int" where
  "py_int s =
     (let t = dropWhile (\<lambda>c. c = CHR '' '') s
      in if t \<noteq> [] \<and> list_all is_digit t then Inr (digits_val t) else Inl ValueError)"

definition group_int :: "(directive \<times> string) list \<Rightarrow> directive \<Rightarrow> int \<Rightarrow> exn + int" where
  "group_int found D dflt = (case map_of found D of None \<Rightarrow> Inr dflt | Some t \<Rightarrow> py_int t)"

text \<open>The fraction group is padded with zeros on the right to six digits.\<close>

definition conv_f :: "(directive \<times> string) list \<Rightarrow> exn + int" where
  "conv_f found =
     (case map_of found Df of
        None \<Rightarrow> Inr 0
      | Some s \<Rightarrow> py_int (s @ replicate (6 - length s) (CHR ''0'')))"

text \<open>
  The offset group, as \<^verbatim>\<open>_strptime\<close> converts it: the colons are removed (a colon after
  the hours and none after the minutes is an error), then hours, minutes, seconds and the
  fraction are read by position. The result is the offset in seconds and its fraction in
  microseconds. The slices \<^verbatim>\<open>z[3]\<close>, \<^verbatim>\<open>z[5]\<close> are within the matched text.
\<close>

definition strip_colons :: "string \<Rightarrow> exn + string" where
  "strip_colons z0 =
     (if take 1 (drop 3 z0) = '':'' then
        (let z = take 3 z0 @ drop 4 z0
         in if length z > 5 then
              (if take 1 (drop 5 z) \<noteq> '':'' then Inl ValueError
               else Inr (take 5 z @ drop 6 z))
            else Inr z)
      else Inr z0)"

definition conv_z :: "string \<Rightarrow> exn + int \<times> int" where
  "conv_z z0 =
     (if z0 = ''Z'' then Inr (0, 0)
      else
        and_then (strip_colons z0) (\<lambda>z.
        and_then (py_int (take 2 (drop 1 z))) (\<lambda>hours.
        and_then (py_int (take 2 (drop 3 z))) (\<lambda>minutes.
        and_then (if take 2 (drop 5 z) = [] then Inr 0 else py_int (take 2 (drop 5 z)))
          (\<lambda>seconds.
        and_then (py_int (drop 8 z @ replicate (6 - length (drop 8 z)) (CHR ''0'')))
          (\<lambda>fraction.
           (let gmtoff = hours * 60 * 60 + minutes * 60 + seconds
            in if take 1 z = ''-'' then Inr (- gmtoff, - fraction)
               else Inr (gmtoff, fraction))))))))"

text \<open>The offset of a \<^verbatim>\<open>timezone\<close> lies strictly between minus and plus 24 hours.\<close>

definition conv_tz :: "(directive \<times> string) list \<Rightarrow> exn + int option" where
  "conv_tz found =
     (case map_of found Dz of
        None \<Rightarrow> Inr None
      | Some z \<Rightarrow>
          (case conv_z z of
             Inl e \<Rightarrow> Inl e
           | Inr (gmtoff, fraction) \<Rightarrow>
               (let off = gmtoff * 1000000 + fraction
                in if \<bar>off\<bar> < 24 * 3600 * 1000000 then Inr (Some off) else Inl ValueError)))"

definition check_time :: "int \<Rightarrow> int \<Rightarrow> int \<Rightarrow> int \<Rightarrow> bool" where
  "check_time h mi s us =
     (0 \<le> h \<and> h \<le> 23 \<and> 0 \<le> mi \<and> mi \<le> 59 \<and> 0 \<le> s \<and> s \<le> 59 \<and> 0 \<le> us \<and> us \<le> 999999)"

definition convert :: "(directive \<times> string) list \<Rightarrow> exn + datetime" where
  "convert found =
     and_then (group_int found DY 1900) (\<lambda>y.
     and_then (group_int found Dm 1) (\<lambda>m.
     and_then (group_int found Dd 1) (\<lambda>d.
     and_then (group_int found DH 0) (\<lambda>h.
     and_then (group_int found DM 0) (\<lambda>mi.
     and_then (group_int found DS 0) (\<lambda>s.
     and_then (conv_f found) (\<lambda>us.
     and_then (conv_tz found) (\<lambda>tz.
       if check_date y m d \<and> check_time h mi s us then Inr (Datetime y m d h mi s us tz)
       else Inl ValueError))))))))"

text \<open>\<^verbatim>\<open>datetime.strptime(data, fmt)\<close>: a \<^verbatim>\<open>TypeError\<close> when the data is not a string,
  a \<^verbatim>\<open>ValueError\<close> when the format does not match, when characters are left over or when
  the fields are no datetime.\<close>

definition strptime :: "pyval \<Rightarrow> string \<Rightarrow> exn + datetime" where
  "strptime data fmt =
     (case data of
        PyStr s \<Rightarrow>
          (case compile_fmt fmt of
             None \<Rightarrow> Inl ValueError
           | Some fs \<Rightarrow>
               (case match_fmt fs s [] of
                  None \<Rightarrow> Inl ValueError
                | Some (found, rest) \<Rightarrow> if rest \<noteq> [] then Inl ValueError else convert found))
      | _ \<Rightarrow> Inl TypeError)"

section \<open>Formatting a value in a message\<close>

text \<open>
  The code builds its log lines and error messages with f-strings, which format their
  values at once, whether or not the line is logged. Formatting a value can raise: an
  integer of more than 4300 decimal digits raises \<^verbatim>\<open>ValueError\<close> (the limit of the
  interpreter on the conversion of integers to strings), and a list or dictionary nested
  deeper than the recursion limit raises \<^verbatim>\<open>RecursionError\<close>. \<open>fmt_exn budget x\<close> is the
  exception that formatting \<open>x\<close> raises when \<open>budget\<close> levels of nesting are left, if it
  raises. The limit of the interpreter is 1000 by default; the frames that are on the
  stack at the call take from it, which the model leaves out, and no theorem below rests
  on a list or dictionary being formatted without an exception.
\<close>

definition MAX_STR_DIGITS :: nat where
  "MAX_STR_DIGITS = 4300"

text \<open>The number of decimal digits of a non-negative integer.\<close>

function decimal_digits :: "int \<Rightarrow> nat" where
  "decimal_digits n = (if n < 10 then 1 else Suc (decimal_digits (n div 10)))"
  by pat_completeness auto
termination
  by (relation "measure nat") auto

declare decimal_digits.simps [simp del]

definition int_too_long :: "int \<Rightarrow> bool" where
  "int_too_long n = (MAX_STR_DIGITS < decimal_digits \<bar>n\<bar>)"

fun fmt_exn :: "nat \<Rightarrow> pyval \<Rightarrow> exn option" where
  "fmt_exn budget (PyInt n) = (if int_too_long n then Some ValueError else None)"
| "fmt_exn budget (PyList xs) =
     (case budget of
        0 \<Rightarrow> Some RecursionError
      | Suc l \<Rightarrow> first_some (map (\<lambda>x. fmt_exn l x) xs))"
| "fmt_exn budget (PyDict kvs) =
     (case budget of
        0 \<Rightarrow> Some RecursionError
      | Suc l \<Rightarrow> first_some (map (\<lambda>kv. fmt_exn l (snd kv)) kvs))"
| "fmt_exn budget _ = None"

definition recursion_limit :: nat where
  "recursion_limit = 1000"

definition format_value :: "pyval \<Rightarrow> exn option" where
  "format_value x = fmt_exn recursion_limit x"

text \<open>An f-string with the given values, formatted from left to right.\<close>

definition format_values :: "pyval list \<Rightarrow> exn + unit" where
  "format_values xs =
     (case first_some (map format_value xs) of None \<Rightarrow> Inr () | Some e \<Rightarrow> Inl e)"

section \<open>The schedule validator\<close>

subsection \<open>\<^verbatim>\<open>ScheduleValidator._parse_timestamp\<close>\<close>

definition formats :: "string list" where
  "formats =
     [''%Y-%m-%dT%H:%M:%SZ'',
      ''%Y-%m-%dT%H:%M:%S%z'',
      ''%Y-%m-%dT%H:%M:%S'',
      ''%Y-%m-%dT%H:%M:%S.%fZ'',
      ''%Y-%m-%dT%H:%M:%S.%f'']"

text \<open>The loop over the formats: a \<^verbatim>\<open>ValueError\<close> moves on to the next format, any
  other exception leaves the function, and the \<^verbatim>\<open>ValueError\<close> after the loop is raised
  when no format is left.\<close>

fun try_formats :: "pyval \<Rightarrow> string list \<Rightarrow> exn + datetime" where
  "try_formats ts [] = Inl ValueError"
| "try_formats ts (fmt # fmts) =
     (case strptime ts fmt of
        Inl e \<Rightarrow> if e = ValueError then try_formats ts fmts else Inl e
      | Inr t \<Rightarrow> Inr t)"

definition parse_timestamp :: "pyval \<Rightarrow> exn + datetime" where
  "parse_timestamp timestamp_str = try_formats timestamp_str formats"

subsection \<open>Errors and the validator's constraints\<close>

text \<open>
  The validator reports errors as formatted strings. An error is modelled by one
  constructor for each message of the source, with the values that the message
  interpolates. The entry prefix \<^verbatim>\<open>"Entry {index}: "\<close> is the index it holds, if any;
  the device prefix \<^verbatim>\<open>"Device {device_id}: "\<close> is the device id, absent when the id is
  \<^verbatim>\<open>None\<close> or empty. Durations are in microseconds. \<open>NoMessage\<close> is Python's \<^verbatim>\<open>None\<close>
  standing where a message is expected.
\<close>

datatype verr =
    EntryNotDict "nat option"
  | MissingField "nat option" string
  | InvalidTimestampFormat "nat option"
  | StartNotBeforeEnd "nat option"
  | IntervalTooShort "nat option"
  | IntervalTooLong "nat option"
  | ModeNotInteger "nat option"
  | ModeNotOneOf "nat option" "int list" int
  | RateNotNumber "nat option"
  | RateTooLow "nat option" real pyfloat
  | RateTooHigh "nat option" real pyfloat
  | ScheduleNotList "string option"
  | ScheduleEmpty "string option"
  | EntryTimestampFormat nat
  | Overlap "string option" nat nat datetime datetime
  | Gap "string option" nat nat int
  | OverlapAdvisory "string option" nat nat int
  | EntryInvalid nat verr
  | NoMessage

record validator =
  min_rate_kw :: real
  max_rate_kw :: real
  valid_modes :: "int list"

definition MIN_RATE_KW :: real where "MIN_RATE_KW = 0"
definition MAX_RATE_KW :: real where "MAX_RATE_KW = 1000"
definition VALID_MODES :: "int list" where "VALID_MODES = [1, 2]"
definition MIN_INTERVAL_MINUTES :: real where "MIN_INTERVAL_MINUTES = 1"
definition MAX_INTERVAL_HOURS :: real where "MAX_INTERVAL_HOURS = 24"

text \<open>\<^verbatim>\<open>ScheduleValidator.__init__\<close>: \<^verbatim>\<open>valid_modes or self.VALID_MODES\<close> takes the
  default for \<^verbatim>\<open>None\<close> and for an empty set.\<close>

definition ScheduleValidator :: "real \<Rightarrow> real \<Rightarrow> int list option \<Rightarrow> validator" where
  "ScheduleValidator lo hi modes =
     \<lparr>min_rate_kw = lo, max_rate_kw = hi,
      valid_modes = (case modes of None \<Rightarrow> VALID_MODES
                     | Some ms \<Rightarrow> if ms = [] then VALID_MODES else ms)\<rparr>"

definition default_validator :: validator where
  "default_validator = ScheduleValidator MIN_RATE_KW MAX_RATE_KW None"

subsection \<open>\<^verbatim>\<open>_validate_timestamps\<close>, \<^verbatim>\<open>_validate_mode\<close>, \<^verbatim>\<open>_validate_rate\<close>\<close>

text \<open>A \<^verbatim>\<open>try\<close> block whose handler is \<^verbatim>\<open>except ValueError\<close>: the handler's value for
  that exception, the exception itself for any other.\<close>

definition except_ValueError :: "exn + 'a \<Rightarrow> 'b \<Rightarrow> ('a \<Rightarrow> exn + 'b) \<Rightarrow> exn + 'b" where
  "except_ValueError r handler f =
     (case r of
        Inl e \<Rightarrow> if e = ValueError then Inr handler else Inl e
      | Inr x \<Rightarrow> f x)"

text \<open>The duration is \<^verbatim>\<open>total_seconds() / 60\<close>; the comparisons with one minute and with
  24 hours are exact at the resolution of a microsecond.\<close>

definition validate_timestamps ::
    "pyval \<Rightarrow> pyval \<Rightarrow> nat option \<Rightarrow> exn + bool \<times> verr option" where
  "validate_timestamps start_time end_time prefix =
     except_ValueError
       (and_then (parse_timestamp start_time) (\<lambda>start_dt.
        and_then (parse_timestamp end_time) (\<lambda>end_dt. Inr (start_dt, end_dt))))
       (False, Some (InvalidTimestampFormat prefix))
       (\<lambda>(start_dt, end_dt).
          and_then (dt_ge start_dt end_dt) (\<lambda>ge.
            if ge then Inr (False, Some (StartNotBeforeEnd prefix))
            else
              and_then (dt_sub end_dt start_dt) (\<lambda>delta.
                (let duration_minutes = real_of_int delta / 1000000 / 60
                 in if duration_minutes < MIN_INTERVAL_MINUTES
                    then Inr (False, Some (IntervalTooShort prefix))
                    else
                      (let duration_hours = duration_minutes / 60
                       in if duration_hours > MAX_INTERVAL_HOURS
                          then Inr (False, Some (IntervalTooLong prefix))
                          else Inr (True, None))))))"

text \<open>The message for a mode that is not valid formats the valid modes, in order, and
  the mode.\<close>

definition validate_mode ::
    "validator \<Rightarrow> pyval \<Rightarrow> nat option \<Rightarrow> exn + bool \<times> verr option" where
  "validate_mode v mode prefix =
     (case int_instance mode of
        None \<Rightarrow> Inr (False, Some (ModeNotInteger prefix))
      | Some m \<Rightarrow>
          if m \<in> set (valid_modes v) then Inr (True, None)
          else
            and_then
              (format_values (map PyInt (sort (remdups (valid_modes v))) @ [mode]))
              (\<lambda>_. Inr (False, Some (ModeNotOneOf prefix (sort (remdups (valid_modes v))) m))))"

text \<open>The handler of \<^verbatim>\<open>float(rate_kw)\<close> is \<^verbatim>\<open>except (ValueError, TypeError)\<close>.\<close>

definition validate_rate ::
    "(string \<Rightarrow> pyfloat option) \<Rightarrow> validator \<Rightarrow> pyval \<Rightarrow> nat option
      \<Rightarrow> exn + bool \<times> verr option" where
  "validate_rate F v rate_kw prefix =
     (case py_float F rate_kw of
        Inl e \<Rightarrow>
          if e = ValueError then Inr (False, Some (RateNotNumber prefix))
          else if e = TypeError then Inr (False, Some (RateNotNumber prefix))
          else Inl e
      | Inr rate \<Rightarrow>
          if flt_less rate (FNum (min_rate_kw v))
          then Inr (False, Some (RateTooLow prefix (min_rate_kw v) rate))
          else if flt_less (FNum (max_rate_kw v)) rate
          then Inr (False, Some (RateTooHigh prefix (max_rate_kw v) rate))
          else Inr (True, None))"

subsection \<open>\<^verbatim>\<open>validate_schedule_entry\<close>\<close>

definition required_fields :: "string list" where
  "required_fields = [''start_time'', ''end_time'', ''mode'', ''rate_kw'']"

text \<open>\<^verbatim>\<open>entry.get(key)\<close> and \<^verbatim>\<open>entry[key]\<close> on a dictionary.\<close>

definition dict_get :: "(string \<times> pyval) list \<Rightarrow> string \<Rightarrow> pyval" where
  "dict_get kvs k = (case map_of kvs k of None \<Rightarrow> PyNone | Some x \<Rightarrow> x)"

fun subscript :: "pyval \<Rightarrow> string \<Rightarrow> exn + pyval" where
  "subscript (PyDict kvs) k = (case map_of kvs k of None \<Rightarrow> Inl KeyError | Some x \<Rightarrow> Inr x)"
| "subscript _ k = Inl TypeError"

definition validate_schedule_entry ::
    "(string \<Rightarrow> pyfloat option) \<Rightarrow> validator \<Rightarrow> pyval \<Rightarrow> nat option
      \<Rightarrow> exn + bool \<times> verr option" where
  "validate_schedule_entry F v entry index =
     (case entry of
        PyDict kvs \<Rightarrow>
          (case find (\<lambda>field. map_of kvs field = None) required_fields of
             Some field \<Rightarrow> Inr (False, Some (MissingField index field))
           | None \<Rightarrow>
               and_then
                 (validate_timestamps (dict_get kvs ''start_time'') (dict_get kvs ''end_time'')
                    index)
                 (\<lambda>(valid, error).
                    if \<not> valid then Inr (False, error)
                    else
                      and_then (validate_mode v (dict_get kvs ''mode'') index)
                        (\<lambda>(valid, error).
                           if \<not> valid then Inr (False, error)
                           else
                             and_then (validate_rate F v (dict_get kvs ''rate_kw'') index)
                               (\<lambda>(valid, error).
                                  if \<not> valid then Inr (False, error)
                                  else Inr (True, None)))))
      | _ \<Rightarrow> Inr (False, Some (EntryNotDict index)))"

subsection \<open>\<^verbatim>\<open>_check_overlaps\<close> and \<^verbatim>\<open>_check_sequential\<close>\<close>

type_synonym ptime = "datetime \<times> datetime \<times> nat"

text \<open>
  \<^verbatim>\<open>sorted(parsed_times, key=lambda x: x[0])\<close>: a stable sort on the start. The sort
  compares starts with \<^verbatim>\<open><\<close>, and a comparison sort links all elements by its
  comparisons, so it raises \<^verbatim>\<open>TypeError\<close> exactly when naive and aware starts are mixed.
\<close>

definition sorted_by_start :: "ptime list \<Rightarrow> exn + ptime list" where
  "sorted_by_start xs =
     (case xs of
        [] \<Rightarrow> Inr []
      | x0 # _ \<Rightarrow>
          if list_all (\<lambda>x. aware (fst x) = aware (fst x0)) xs
          then Inr (sort_key (\<lambda>x. instant (fst x)) xs)
          else Inl TypeError)"

text \<open>The loop over \<^verbatim>\<open>range(len(sorted_times) - 1)\<close> looks at each adjacent pair.\<close>

fun overlap_sweep :: "string option \<Rightarrow> ptime list \<Rightarrow> exn + verr list" where
  "overlap_sweep prefix (a # b # rest) =
     and_then (dt_gt (fst (snd a)) (fst b)) (\<lambda>gt.
     and_then (overlap_sweep prefix (b # rest)) (\<lambda>errors.
       Inr ((if gt then [Overlap prefix (snd (snd a)) (snd (snd b)) (fst (snd a)) (fst b)]
             else []) @ errors)))"
| "overlap_sweep prefix _ = Inr []"

definition check_overlaps :: "ptime list \<Rightarrow> string option \<Rightarrow> exn + verr list" where
  "check_overlaps parsed_times prefix =
     and_then (sorted_by_start parsed_times) (overlap_sweep prefix)"

fun sequential_sweep :: "string option \<Rightarrow> ptime list \<Rightarrow> exn + verr list" where
  "sequential_sweep prefix (a # b # rest) =
     and_then
       (if dt_ne (fst (snd a)) (fst b) then
          and_then (dt_sub (fst b) (fst (snd a))) (\<lambda>gap.
            if gap > 0 then Inr [Gap prefix (snd (snd a)) (snd (snd b)) gap]
            else
              and_then (dt_sub (fst (snd a)) (fst b)) (\<lambda>over.
                Inr [OverlapAdvisory prefix (snd (snd a)) (snd (snd b)) over]))
        else Inr [])
       (\<lambda>warning.
          and_then (sequential_sweep prefix (b # rest)) (\<lambda>warnings. Inr (warning @ warnings)))"
| "sequential_sweep prefix _ = Inr []"

definition check_sequential :: "ptime list \<Rightarrow> string option \<Rightarrow> exn + verr list" where
  "check_sequential parsed_times prefix =
     and_then (sorted_by_start parsed_times) (sequential_sweep prefix)"

subsection \<open>\<^verbatim>\<open>validate_schedule\<close> and \<^verbatim>\<open>clean_schedule\<close>\<close>

definition device_prefix :: "string option \<Rightarrow> string option" where
  "device_prefix device_id =
     (case device_id of None \<Rightarrow> None | Some d \<Rightarrow> if d = [] then None else Some d)"

definition message :: "verr option \<Rightarrow> verr" where
  "message error = (case error of None \<Rightarrow> NoMessage | Some e \<Rightarrow> e)"

text \<open>The body of the \<^verbatim>\<open>try\<close> block of the loop: both timestamps of the entry, parsed
  again.\<close>

definition entry_times :: "pyval \<Rightarrow> exn + datetime \<times> datetime" where
  "entry_times entry =
     and_then (and_then (subscript entry ''start_time'') parse_timestamp) (\<lambda>start_time.
     and_then (and_then (subscript entry ''end_time'') parse_timestamp) (\<lambda>end_time.
       Inr (start_time, end_time)))"

text \<open>The loop over \<^verbatim>\<open>enumerate(schedule)\<close>, with the lists \<^verbatim>\<open>errors\<close> and
  \<^verbatim>\<open>parsed_times\<close> that it appends to.\<close>

fun validate_entries ::
    "(string \<Rightarrow> pyfloat option) \<Rightarrow> validator \<Rightarrow> nat \<Rightarrow> pyval list \<Rightarrow> verr list \<Rightarrow> ptime list
      \<Rightarrow> exn + verr list \<times> ptime list" where
  "validate_entries F v i [] errors parsed_times = Inr (errors, parsed_times)"
| "validate_entries F v i (entry # rest) errors parsed_times =
     and_then (validate_schedule_entry F v entry (Some i)) (\<lambda>(valid, error).
       if \<not> valid then validate_entries F v (Suc i) rest (errors @ [message error]) parsed_times
       else
         and_then
           (except_ValueError (entry_times entry)
              (errors @ [EntryTimestampFormat i], parsed_times)
              (\<lambda>(start_time, end_time).
                 Inr (errors, parsed_times @ [(start_time, end_time, i)])))
           (\<lambda>(errors', parsed_times'). validate_entries F v (Suc i) rest errors' parsed_times'))"

definition validate_schedule ::
    "(string \<Rightarrow> pyfloat option) \<Rightarrow> validator \<Rightarrow> pyval \<Rightarrow> string option
      \<Rightarrow> exn + bool \<times> verr list" where
  "validate_schedule F v schedule device_id =
     (let prefix = device_prefix device_id in
      case schedule of
        PyList entries \<Rightarrow>
          if length entries = 0 then Inr (False, [ScheduleEmpty prefix])
          else
            and_then (validate_entries F v 0 entries [] []) (\<lambda>(errors, parsed_times).
              if errors \<noteq> [] then Inr (False, errors)
              else
                and_then (check_overlaps parsed_times prefix) (\<lambda>overlap_errors.
                and_then (check_sequential parsed_times prefix) (\<lambda>sequential_errors.
                  (let errors = errors @ overlap_errors @ sequential_errors
                   in Inr (length errors = 0, errors)))))
      | _ \<Rightarrow> Inr (False, [ScheduleNotList prefix]))"

text \<open>\<^verbatim>\<open>clean_schedule\<close> takes a list of entries, as its signature says.\<close>

fun clean_entries ::
    "(string \<Rightarrow> pyfloat option) \<Rightarrow> validator \<Rightarrow> nat \<Rightarrow> pyval list \<Rightarrow> pyval list \<Rightarrow> verr list
      \<Rightarrow> exn + pyval list \<times> verr list" where
  "clean_entries F v i [] cleaned warnings = Inr (cleaned, warnings)"
| "clean_entries F v i (entry # rest) cleaned warnings =
     and_then (validate_schedule_entry F v entry (Some i)) (\<lambda>(valid, error).
       if valid then clean_entries F v (Suc i) rest (cleaned @ [entry]) warnings
       else clean_entries F v (Suc i) rest cleaned (warnings @ [EntryInvalid i (message error)]))"

definition clean_schedule ::
    "(string \<Rightarrow> pyfloat option) \<Rightarrow> validator \<Rightarrow> pyval list \<Rightarrow> string option
      \<Rightarrow> exn + pyval list \<times> verr list" where
  "clean_schedule F v schedule device_id =
     and_then (clean_entries F v 0 schedule [] []) (\<lambda>(cleaned, warnings).
       if cleaned \<noteq> [] then
         and_then (validate_schedule F v (PyList cleaned) device_id) (\<lambda>(valid, errors).
           if \<not> valid then Inr (cleaned, warnings @ errors) else Inr (cleaned, warnings))
       else Inr (cleaned, warnings))"

section \<open>The device side\<close>

subsection \<open>\<^verbatim>\<open>ScheduleExecutor\<close>\<close>

text \<open>\<^verbatim>\<open>rate_kw * c\<close> for a float constant \<open>c > 0\<close>: a number is converted to a float
  first, anything else is a \<^verbatim>\<open>TypeError\<close>. Both control calls log the rate before they
  multiply it.\<close>

fun mul_float :: "pyval \<Rightarrow> real \<Rightarrow> exn + pyval" where
  "mul_float (PyFloat (FNum r)) c = Inr (PyFloat (FNum (r * c)))"
| "mul_float (PyFloat f) c = Inr (PyFloat f)"
| "mul_float (PyInt n) c =
     (if \<bar>n\<bar> \<ge> 2 ^ 1024 - 2 ^ 970 then Inl OverflowError
      else Inr (PyFloat (FNum (of_int n * c))))"
| "mul_float (PyBool b) c = Inr (PyFloat (FNum ((if b then 1 else 0) * c)))"
| "mul_float _ c = Inl TypeError"

definition execute_discharge :: "pyval \<Rightarrow> exn + pyval" where
  "execute_discharge rate_kw =
     and_then (format_values [rate_kw]) (\<lambda>_. mul_float rate_kw 0.98)"

definition execute_charge :: "pyval \<Rightarrow> exn + pyval" where
  "execute_charge rate_kw =
     and_then (format_values [rate_kw]) (\<lambda>_. mul_float rate_kw 0.97)"

text \<open>The body of the \<^verbatim>\<open>try\<close> block of \<^verbatim>\<open>execute_command\<close>, up to the realized rate.
  The message of the \<^verbatim>\<open>ValueError\<close> formats the mode.\<close>

definition control_call :: "pyval \<Rightarrow> pyval \<Rightarrow> exn + pyval" where
  "control_call mode rate_kw =
     (if py_eq_int mode 1 then execute_discharge rate_kw
      else if py_eq_int mode 2 then execute_charge rate_kw
      else and_then (format_values [mode]) (\<lambda>_. Inl ValueError))"

text \<open>A \<^verbatim>\<open>try\<close> block whose handler is \<^verbatim>\<open>except Exception\<close>.\<close>

definition except_Exception :: "exn + 'a \<Rightarrow> 'a \<Rightarrow> exn + 'a" where
  "except_Exception r handler =
     (case r of
        Inl e \<Rightarrow> if is_Exception e then Inr handler else Inl e
      | Inr x \<Rightarrow> Inr x)"

text \<open>\<^verbatim>\<open>execute_command\<close> logs the mode and the rate before its \<^verbatim>\<open>try\<close> block, and
  the rate and the realized rate inside it.\<close>

definition execute_command :: "pyval \<Rightarrow> pyval \<Rightarrow> exn + bool \<times> pyval option" where
  "execute_command mode rate_kw =
     and_then (format_values [mode, rate_kw]) (\<lambda>_.
       except_Exception
         (and_then (control_call mode rate_kw) (\<lambda>actual_rate.
          and_then (format_values [rate_kw, actual_rate]) (\<lambda>_.
            Inr (True, Some actual_rate))))
         (False, None))"

subsection \<open>\<^verbatim>\<open>validate_schedule_locally\<close>\<close>

datatype lerr =
    LocalNotList
  | LocalEmpty
  | LocalNotDict nat
  | LocalMissingField nat string
  | LocalBadMode nat pyval
  | LocalBadRate nat pyval

text \<open>\<^verbatim>\<open>not isinstance(rate, (int, float)) or rate < 0 or rate > 1000\<close>\<close>

fun rate_rejected :: "pyval \<Rightarrow> bool" where
  "rate_rejected (PyInt n) = (n < 0 \<or> n > 1000)"
| "rate_rejected (PyBool b) = False"
| "rate_rejected (PyFloat f) = (flt_less f (FNum 0) \<or> flt_less (FNum 1000) f)"
| "rate_rejected _ = True"

text \<open>The errors of one entry. The messages for a bad mode and for a bad rate format the
  value, which may raise.\<close>

definition local_entry_errors :: "nat \<Rightarrow> pyval \<Rightarrow> exn + lerr list" where
  "local_entry_errors i entry =
     (case entry of
        PyDict kvs \<Rightarrow>
          and_then
            (case map_of kvs ''mode'' of
               None \<Rightarrow> Inr []
             | Some mode \<Rightarrow>
                 if py_eq_int mode 1 \<or> py_eq_int mode 2 then Inr []
                 else and_then (format_values [mode]) (\<lambda>_. Inr [LocalBadMode i mode]))
            (\<lambda>mode_errors.
          and_then
            (case map_of kvs ''rate_kw'' of
               None \<Rightarrow> Inr []
             | Some rate \<Rightarrow>
                 if rate_rejected rate
                 then and_then (format_values [rate]) (\<lambda>_. Inr [LocalBadRate i rate])
                 else Inr [])
            (\<lambda>rate_errors.
               Inr (map (LocalMissingField i)
                      (filter (\<lambda>field. map_of kvs field = None) required_fields)
                    @ mode_errors @ rate_errors)))
      | _ \<Rightarrow> Inr [LocalNotDict i])"

fun local_entries :: "nat \<Rightarrow> pyval list \<Rightarrow> exn + lerr list" where
  "local_entries i [] = Inr []"
| "local_entries i (entry # rest) =
     and_then (local_entry_errors i entry) (\<lambda>errors.
     and_then (local_entries (Suc i) rest) (\<lambda>more_errors. Inr (errors @ more_errors)))"

definition validate_schedule_locally :: "pyval \<Rightarrow> exn + bool \<times> lerr list" where
  "validate_schedule_locally schedule =
     (case schedule of
        PyList entries \<Rightarrow>
          if length entries = 0 then Inr (False, [LocalEmpty])
          else and_then (local_entries 0 entries) (\<lambda>errors. Inr (length errors = 0, errors))
      | _ \<Rightarrow> Inr (False, [LocalNotList]))"

subsection \<open>\<^verbatim>\<open>BatteryDaemon\<close>: receiving a schedule\<close>

text \<open>
  The state of the daemon that the schedule path reads and writes: the schedule in memory
  and the rows of the table \<^verbatim>\<open>schedules\<close> of the local database.
\<close>

record sched_row =
  row_device :: string
  row_data :: pyval
  row_status :: string

record daemon =
  device_id :: string
  current_schedule :: "pyval option"
  schedules :: "sched_row list"

text \<open>
  The outcome of the database calls of \<^verbatim>\<open>_store_schedule\<close>: every call succeeds and the
  transaction commits; \<^verbatim>\<open>sqlite3.connect\<close> raises, which is outside the \<^verbatim>\<open>try\<close> block;
  the \<^verbatim>\<open>UPDATE\<close> raises; the \<^verbatim>\<open>INSERT\<close> or the commit raises. An \<^verbatim>\<open>sqlite3.Error\<close>
  inside the \<^verbatim>\<open>try\<close> block is caught and the transaction rolled back.
\<close>

datatype db_outcome = Commits | ConnectFails | UpdateFails | InsertFails

text \<open>
  \<^verbatim>\<open>_store_schedule\<close>: the state after the call and the exception that leaves it, if
  one does. The update and the insert are one transaction. Between them the schedule is
  serialized by \<^verbatim>\<open>json.dumps\<close>, which raises on the values on which formatting raises
  (an integer beyond the digit limit, nesting beyond the recursion limit); this exception
  is no \<^verbatim>\<open>sqlite3.Error\<close>, so it leaves the function, and the connection is closed
  without a commit.
\<close>

definition store_schedule :: "db_outcome \<Rightarrow> daemon \<Rightarrow> pyval \<Rightarrow> daemon \<times> exn option" where
  "store_schedule outcome d schedule =
     (case outcome of
        ConnectFails \<Rightarrow> (d, Some DatabaseError)
      | UpdateFails \<Rightarrow> (d, None)
      | _ \<Rightarrow>
          (case format_value schedule of
             Some e \<Rightarrow> (d, Some e)
           | None \<Rightarrow>
               if outcome = Commits then
                 (d\<lparr>schedules :=
                      map (\<lambda>r. if row_device r = device_id d \<and> row_status r = ''active''
                                then r\<lparr>row_status := ''inactive''\<rparr> else r) (schedules d)
                      @ [\<lparr>row_device = device_id d, row_data = schedule,
                          row_status = ''active''\<rparr>]\<rparr>, None)
               else (d, None)))"

text \<open>\<^verbatim>\<open>_process_schedule\<close>: the state after the call and the exception that leaves it,
  if one does. An exception of the validation leaves the function before the state is
  touched; the schedule in memory is replaced before the schedule is stored.\<close>

definition process_schedule :: "db_outcome \<Rightarrow> daemon \<Rightarrow> pyval \<Rightarrow> daemon \<times> exn option" where
  "process_schedule outcome d schedule =
     (case validate_schedule_locally schedule of
        Inl e \<Rightarrow> (d, Some e)
      | Inr (is_valid, errors) \<Rightarrow>
          if \<not> is_valid then (d, None)
          else store_schedule outcome (d\<lparr>current_schedule := Some schedule\<rparr>) schedule)"

text \<open>The schedules that the database holds as active for the device.\<close>

definition stored_active :: "daemon \<Rightarrow> pyval list" where
  "stored_active d =
     map row_data
       (filter (\<lambda>r. row_device r = device_id d \<and> row_status r = ''active'') (schedules d))"

subsection \<open>\<^verbatim>\<open>BatteryDaemon\<close>: the execute tick\<close>

text \<open>
  \<^verbatim>\<open>datetime.fromisoformat\<close> is the library's and is the parameter \<open>fromiso\<close> of the tick; the
  current time \<^verbatim>\<open>datetime.utcnow()\<close> is the parameter \<open>now\<close>.
  \<^verbatim>\<open>entry[key].replace("Z", "+00:00")\<close> is an \<^verbatim>\<open>AttributeError\<close> on a value that is no
  string.
\<close>

definition replace_Z :: "string \<Rightarrow> string" where
  "replace_Z s = concat (map (\<lambda>c. if c = CHR ''Z'' then ''+00:00'' else [c]) s)"

definition entry_time :: "(string \<Rightarrow> exn + datetime) \<Rightarrow> pyval \<Rightarrow> string \<Rightarrow> exn + datetime" where
  "entry_time fromiso entry key =
     and_then (subscript entry key) (\<lambda>x.
       case x of PyStr s \<Rightarrow> fromiso (replace_Z s) | _ \<Rightarrow> Inl AttributeError)"

text \<open>\<^verbatim>\<open>start_time <= now < end_time\<close>, after both times are read.\<close>

definition in_window :: "(string \<Rightarrow> exn + datetime) \<Rightarrow> datetime \<Rightarrow> pyval \<Rightarrow> exn + bool" where
  "in_window fromiso now entry =
     and_then (entry_time fromiso entry ''start_time'') (\<lambda>start_time.
     and_then (entry_time fromiso entry ''end_time'') (\<lambda>end_time.
     and_then (dt_le start_time now) (\<lambda>le.
       if le then dt_lt now end_time else Inr False)))"

text \<open>\<^verbatim>\<open>_execute_entry\<close>: one call of the executor and the acknowledgement that is sent
  for it. The mode and the rate are logged before the \<^verbatim>\<open>try\<close> block. Sending catches
  every exception and changes no state.\<close>

record dispatch =
  entry_index :: nat
  cmd_mode :: pyval
  cmd_rate :: pyval
  ack_status :: string
  ack_rate :: "pyval option"

definition execute_entry :: "nat \<Rightarrow> pyval \<Rightarrow> exn + dispatch" where
  "execute_entry index entry =
     and_then (subscript entry ''mode'') (\<lambda>mode.
     and_then (subscript entry ''rate_kw'') (\<lambda>rate_kw.
     and_then (format_values [mode, rate_kw]) (\<lambda>_.
       except_Exception
         (and_then (execute_command mode rate_kw) (\<lambda>(success, actual_rate).
            if success
            then Inr \<lparr>entry_index = index, cmd_mode = mode, cmd_rate = rate_kw,
                      ack_status = ''success'', ack_rate = actual_rate\<rparr>
            else Inr \<lparr>entry_index = index, cmd_mode = mode, cmd_rate = rate_kw,
                      ack_status = ''failed'', ack_rate = None\<rparr>))
         \<lparr>entry_index = index, cmd_mode = mode, cmd_rate = rate_kw,
          ack_status = ''failed'', ack_rate = None\<rparr>)))"

text \<open>The loop of \<^verbatim>\<open>_check_and_execute\<close> over \<^verbatim>\<open>enumerate(self.current_schedule)\<close>. Its
  value is the list of the dispatches that the tick made; \<^verbatim>\<open>break\<close> ends the loop after
  a dispatch.\<close>

fun scan :: "(string \<Rightarrow> exn + datetime) \<Rightarrow> datetime \<Rightarrow> nat \<Rightarrow> pyval list \<Rightarrow> exn + dispatch list"
  where
  "scan fromiso now i [] = Inr []"
| "scan fromiso now i (entry # rest) =
     and_then (in_window fromiso now entry) (\<lambda>hit.
       if hit then and_then (execute_entry i entry) (\<lambda>d. Inr [d])
       else scan fromiso now (Suc i) rest)"

text \<open>A schedule that is no list but passes \<^verbatim>\<open>if not self.current_schedule\<close> cannot be
  iterated, or yields strings, which cannot be subscripted by a key: a \<^verbatim>\<open>TypeError\<close>.\<close>

definition check_and_execute ::
    "(string \<Rightarrow> exn + datetime) \<Rightarrow> datetime \<Rightarrow> daemon \<Rightarrow> exn + dispatch list" where
  "check_and_execute fromiso now d =
     (case current_schedule d of
        None \<Rightarrow> Inr []
      | Some schedule \<Rightarrow>
          if \<not> truthy schedule then Inr []
          else (case schedule of PyList entries \<Rightarrow> scan fromiso now 0 entries
                | _ \<Rightarrow> Inl TypeError))"

text \<open>
  The daemon over time. A tick is one turn of \<^verbatim>\<open>_execute_schedule_loop\<close> at the given
  time; a reception is one call of \<^verbatim>\<open>_process_schedule\<close> (from a poll or from a pushed
  message) with the outcome of its database calls. Both callers of
  \<^verbatim>\<open>_process_schedule\<close> catch \<^verbatim>\<open>Exception\<close> and go on; the execute loop catches
  nothing. The run yields the final state, the dispatches in order and the exception that
  ended the loop, if one did.
\<close>

datatype event = Tick datetime | Receive pyval db_outcome

fun run :: "(string \<Rightarrow> exn + datetime) \<Rightarrow> daemon \<Rightarrow> event list
    \<Rightarrow> daemon \<times> dispatch list \<times> exn option" where
  "run fromiso d [] = (d, [], None)"
| "run fromiso d (Receive schedule outcome # evs) =
     (case process_schedule outcome d schedule of
        (d', Some e) \<Rightarrow> if is_Exception e then run fromiso d' evs else (d', [], Some e)
      | (d', None) \<Rightarrow> run fromiso d' evs)"
| "run fromiso d (Tick now # evs) =
     (case check_and_execute fromiso now d of
        Inl e \<Rightarrow> (d, [], Some e)
      | Inr ds \<Rightarrow> (case run fromiso d evs of (d', ds', r) \<Rightarrow> (d', ds @ ds', r)))"

text \<open>What \<^verbatim>\<open>datetime.fromisoformat\<close> returns on a string of the shape
  \<^verbatim>\<open>YYYY-MM-DDTHH:MM:SS\<close> (a naive datetime) or \<^verbatim>\<open>YYYY-MM-DDTHH:MM:SS+HH:MM\<close> (an
  aware one) with zero-padded fields, and on a string with no digit (a
  \<^verbatim>\<open>ValueError\<close>). It instantiates \<open>fromiso\<close> in the examples, which use no other
  string.\<close>

definition fromisoformat_basic :: "string \<Rightarrow> exn + datetime" where
  "fromisoformat_basic s =
     (if length s = 19 then strptime (PyStr s) ''%Y-%m-%dT%H:%M:%S''
      else if length s = 25 then strptime (PyStr s) ''%Y-%m-%dT%H:%M:%S%z''
      else Inl ValueError)"

section \<open>Example entries\<close>

text \<open>A schedule entry with the four fields, as the authority sends it.\<close>

definition mk_entry :: "pyval \<Rightarrow> pyval \<Rightarrow> pyval \<Rightarrow> pyval \<Rightarrow> pyval" where
  "mk_entry start_time end_time mode rate_kw =
     PyDict [(''start_time'', start_time), (''end_time'', end_time), (''mode'', mode),
             (''rate_kw'', rate_kw)]"

section \<open>Writing timestamps\<close>

text \<open>
  The timestamps that the claims speak of, written out: the date and the time with
  zero-padded fields, followed by nothing, by \<^verbatim>\<open>Z\<close>, by a numeric offset
  \<^verbatim>\<open>+HH:MM\<close> or \<^verbatim>\<open>-HH:MM\<close>, by a fraction of six digits, or by such a fraction and
  \<^verbatim>\<open>Z\<close>.
\<close>

definition digit_char :: "int \<Rightarrow> char" where
  "digit_char n = ''0123456789'' ! nat n"

definition pad2 :: "int \<Rightarrow> string" where
  "pad2 n = [digit_char (n div 10), digit_char (n mod 10)]"

definition pad4 :: "int \<Rightarrow> string" where
  "pad4 n = [digit_char (n div 1000), digit_char (n div 100 mod 10),
             digit_char (n div 10 mod 10), digit_char (n mod 10)]"

definition pad6 :: "int \<Rightarrow> string" where
  "pad6 n = [digit_char (n div 100000), digit_char (n div 10000 mod 10),
             digit_char (n div 1000 mod 10), digit_char (n div 100 mod 10),
             digit_char (n div 10 mod 10), digit_char (n mod 10)]"

definition iso_base :: "int \<Rightarrow> int \<Rightarrow> int \<Rightarrow> int \<Rightarrow> int \<Rightarrow> int \<Rightarrow> string" where
  "iso_base y m d h mi s =
     pad4 y @ ''-'' @ pad2 m @ ''-'' @ pad2 d @ ''T'' @ pad2 h @ '':'' @ pad2 mi @ '':'' @ pad2 s"

datatype suffix = Plain | Zulu | Offset bool int int | Frac int | FracZulu int

fun render_suffix :: "suffix \<Rightarrow> string" where
  "render_suffix Plain = []"
| "render_suffix Zulu = ''Z''"
| "render_suffix (Offset negative hh mm) =
     (if negative then ''-'' else ''+'') @ pad2 hh @ '':'' @ pad2 mm"
| "render_suffix (Frac us) = ''.'' @ pad6 us"
| "render_suffix (FracZulu us) = ''.'' @ pad6 us @ ''Z''"

fun suffix_ok :: "suffix \<Rightarrow> bool" where
  "suffix_ok (Offset negative hh mm) = (0 \<le> hh \<and> hh \<le> 23 \<and> 0 \<le> mm \<and> mm \<le> 59)"
| "suffix_ok (Frac us) = (0 \<le> us \<and> us \<le> 999999)"
| "suffix_ok (FracZulu us) = (0 \<le> us \<and> us \<le> 999999)"
| "suffix_ok _ = True"

text \<open>The microsecond and the offset that the suffix denotes. Only a numeric offset makes
  the datetime aware: a \<^verbatim>\<open>Z\<close> is matched as a literal character of the format.\<close>

fun suffix_us :: "suffix \<Rightarrow> int" where
  "suffix_us (Frac us) = us"
| "suffix_us (FracZulu us) = us"
| "suffix_us _ = 0"

fun suffix_tz :: "suffix \<Rightarrow> int option" where
  "suffix_tz (Offset negative hh mm) =
     Some ((if negative then - 1 else 1) * (hh * 3600 + mm * 60) * 1000000)"
| "suffix_tz _ = None"

text \<open>The items that the five formats share, and the groups that their match finds on a
  written date and time.\<close>

definition base_groups ::
    "int \<Rightarrow> int \<Rightarrow> int \<Rightarrow> int \<Rightarrow> int \<Rightarrow> int \<Rightarrow> (directive \<times> string) list" where
  "base_groups y m d h mi s =
     [(DY, pad4 y), (Dm, pad2 m), (Dd, pad2 d), (DH, pad2 h), (DM, pad2 mi), (DS, pad2 s)]"

definition base_items :: "fitem list" where
  "base_items =
     [Dir DY, Lit (CHR ''-''), Dir Dm, Lit (CHR ''-''), Dir Dd, Lit (CHR ''T''),
      Dir DH, Lit (CHR '':''), Dir DM, Lit (CHR '':''), Dir DS]"

section \<open>Sequencing and handlers\<close>

lemma and_then_Inr_iff:
  "and_then r f = Inr y \<longleftrightarrow> (\<exists>x. r = Inr x \<and> f x = Inr y)"
  by (cases r) (simp_all add: and_then_def)

lemma and_then_Inr [simp]: "and_then (Inr x) f = f x"
  by (simp add: and_then_def)

lemma and_then_Inl [simp]: "and_then (Inl e) f = Inl e"
  by (simp add: and_then_def)

lemma and_then_Inl_iff:
  "and_then r f = Inl e \<longleftrightarrow> r = Inl e \<or> (\<exists>x. r = Inr x \<and> f x = Inl e)"
  by (cases r) simp_all

lemma except_ValueError_Inr [simp]: "except_ValueError (Inr x) h f = f x"
  by (simp add: except_ValueError_def)

section \<open>Formatting numbers\<close>

lemma decimal_digits_bound:
  "0 < k \<Longrightarrow> n < 10 ^ k \<Longrightarrow> decimal_digits n \<le> k"
proof (induction k arbitrary: n)
  case 0
  then show ?case by simp
next
  case (Suc k)
  show ?case
  proof (cases "n < 10")
    case True
    then show ?thesis by (simp add: decimal_digits.simps)
  next
    case False
    with Suc.prems have k: "0 < k" by (cases k) auto
    from Suc.prems have "n div 10 < 10 ^ k" by simp
    from Suc.IH [OF k this] False show ?thesis
      by (simp add: decimal_digits.simps [of n])
  qed
qed

lemma decimal_digits_power: "decimal_digits (10 ^ k) = Suc k"
proof (induction k)
  case 0
  show ?case by (simp add: decimal_digits.simps)
next
  case (Suc k)
  have "(1 :: int) \<le> 10 ^ k" by (rule one_le_power) simp
  then have "\<not> (10 :: int) ^ Suc k < 10" unfolding power_Suc by linarith
  then have "decimal_digits (10 ^ Suc k) = Suc (decimal_digits (10 ^ Suc k div 10))"
    by (subst decimal_digits.simps) (simp only: if_False)
  with Suc show ?case by simp
qed

lemma int_too_long_small: "\<bar>n\<bar> \<le> 1000 \<Longrightarrow> \<not> int_too_long n"
  using decimal_digits_bound [of 4 "\<bar>n\<bar>"]
  by (simp add: int_too_long_def MAX_STR_DIGITS_def)

lemma int_too_long_huge: "int_too_long (10 ^ 5000)"
proof -
  have a: "\<bar>(10 :: int) ^ 5000\<bar> = 10 ^ 5000"
    by (rule abs_of_nonneg) (rule zero_le_power, simp)
  have "MAX_STR_DIGITS < Suc 5000"
    by (simp add: MAX_STR_DIGITS_def)
  then show ?thesis
    by (simp only: int_too_long_def a decimal_digits_power)
qed

lemma format_value_simps:
  "format_value PyNone = None"
  "format_value (PyBool b) = None"
  "format_value (PyFloat f) = None"
  "format_value (PyStr s) = None"
  "format_value (PyInt n) = (if int_too_long n then Some ValueError else None)"
  by (simp_all add: format_value_def)

lemma format_values_Nil: "format_values [] = Inr ()"
  by (simp add: format_values_def)

lemma format_values_Cons:
  "format_values (x # xs) = (case format_value x of Some e \<Rightarrow> Inl e | None \<Rightarrow> format_values xs)"
  by (cases "format_value x") (simp_all add: format_values_def)

lemma first_some_in: "first_some xs = Some e \<Longrightarrow> Some e \<in> set xs"
proof (induction xs)
  case Nil
  then show ?case by simp
next
  case (Cons x xs)
  then show ?case by (cases x) simp_all
qed

lemma fmt_exn_kind: "fmt_exn budget x = Some e \<Longrightarrow> e = ValueError \<or> e = RecursionError"
proof (induction budget x rule: fmt_exn.induct)
  case (1 budget n)
  then show ?case by (simp split: if_splits)
next
  case (2 budget xs)
  show ?case
  proof (cases budget)
    case 0
    with "2.prems" show ?thesis by simp
  next
    case (Suc l)
    with "2.prems" have "Some e \<in> set (map (\<lambda>x. fmt_exn l x) xs)"
      by (auto dest: first_some_in)
    then obtain x where "x \<in> set xs" "fmt_exn l x = Some e" by auto
    with "2.IH" Suc show ?thesis by blast
  qed
next
  case (3 budget kvs)
  show ?case
  proof (cases budget)
    case 0
    with "3.prems" show ?thesis by simp
  next
    case (Suc l)
    with "3.prems" have "Some e \<in> set (map (\<lambda>kv. fmt_exn l (snd kv)) kvs)"
      by (auto dest: first_some_in)
    then obtain kv where "kv \<in> set kvs" "fmt_exn l (snd kv) = Some e" by auto
    with "3.IH" Suc show ?thesis by blast
  qed
qed simp_all

lemma format_value_exn: "format_value x = Some e \<Longrightarrow> is_Exception e"
  by (auto simp: format_value_def dest: fmt_exn_kind)

lemma format_values_exn: "format_values xs = Inl e \<Longrightarrow> is_Exception e"
proof -
  assume "format_values xs = Inl e"
  then have "first_some (map format_value xs) = Some e"
    by (simp add: format_values_def split: option.splits)
  then have "Some e \<in> set (map format_value xs)" by (rule first_some_in)
  then obtain x where "format_value x = Some e" by auto
  then show ?thesis by (rule format_value_exn)
qed

section \<open>The executor and its log line\<close>

lemma mul_float_exn: "mul_float x c = Inl e \<Longrightarrow> is_Exception e"
  by (cases "(x, c)" rule: mul_float.cases) (auto split: if_splits)

lemma control_call_exn: "control_call mode rate_kw = Inl e \<Longrightarrow> is_Exception e"
  by (auto simp: control_call_def execute_discharge_def execute_charge_def and_then_Inl_iff
      dest: mul_float_exn format_values_exn split: if_splits)

lemma mul_float_result: "mul_float x c = Inr a \<Longrightarrow> format_value a = None"
  by (cases "(x, c)" rule: mul_float.cases) (auto simp: format_value_simps split: if_splits)

lemma control_call_result: "control_call mode rate_kw = Inr a \<Longrightarrow> format_value a = None"
  by (auto simp: control_call_def execute_discharge_def execute_charge_def and_then_Inr_iff
      dest: mul_float_result split: if_splits)

text \<open>
  When the first log line can be formatted, the call returns: an exception of the control
  call gives \<open>(False, None)\<close>, and a rate that the control call realizes gives \<open>True\<close>
  with that rate. When the first log line cannot be formatted, the call raises.
\<close>

lemma execute_command_converts:
  assumes "format_values [mode, rate_kw] = Inr ()"
  shows "case control_call mode rate_kw of
      Inl e \<Rightarrow> execute_command mode rate_kw = Inr (False, None)
    | Inr a \<Rightarrow> execute_command mode rate_kw = Inr (True, Some a)"
proof (cases "control_call mode rate_kw")
  case (Inl e)
  then have "is_Exception e" by (rule control_call_exn)
  with Inl assms show ?thesis
    by (simp add: execute_command_def except_Exception_def)
next
  case (Inr a)
  then have "format_value a = None" by (rule control_call_result)
  moreover from assms have "format_value rate_kw = None"
    by (auto simp: format_values_Cons format_values_Nil split: option.splits)
  ultimately have "format_values [rate_kw, a] = Inr ()"
    by (simp add: format_values_Cons format_values_Nil)
  with Inr assms show ?thesis
    by (simp add: execute_command_def except_Exception_def)
qed

lemma execute_command_log_raises:
  "format_values [mode, rate_kw] = Inl e \<Longrightarrow> execute_command mode rate_kw = Inl e"
  by (simp add: execute_command_def)


section \<open>Gaps and mixed timestamps in the validator\<close>

text \<open>
  Claim C1. The claim says that a gap between consecutive entries is reported as an
  advisory and the schedule is still accepted. In the code the advisories of
  \<^verbatim>\<open>_check_sequential\<close> are appended to the error list, and the verdict is that this list
  is empty: two valid entries with a gap of 30 minutes between them are rejected, with the
  gap as the only error.
\<close>

theorem gap_blocks_acceptance:
  "validate_schedule F default_validator
     (PyList
        [mk_entry (PyStr ''2025-12-25T00:00:00Z'') (PyStr ''2025-12-25T00:30:00Z'')
           (PyInt 1) (PyInt 100),
         mk_entry (PyStr ''2025-12-25T01:00:00Z'') (PyStr ''2025-12-25T01:30:00Z'')
           (PyInt 2) (PyInt 50)])
     None
   = Inr (False, [Gap None 0 1 1800000000])"
  by code_simp

text \<open>
  Claim C4. The claim says that \<open>validate_schedule\<close> returns a pair for every list of
  entries, also when naive and aware timestamps are mixed. In the code a start written
  with \<^verbatim>\<open>Z\<close> is naive and an end written with a numeric offset is aware; comparing them
  raises \<^verbatim>\<open>TypeError\<close>, which no handler catches.
\<close>

theorem mixed_awareness_raises:
  "validate_schedule F default_validator
     (PyList
        [mk_entry (PyStr ''2025-12-25T00:00:00Z'') (PyStr ''2025-12-25T00:30:00+00:00'')
           (PyInt 1) (PyInt 100)])
     None
   = Inl TypeError"
  by code_simp

section \<open>The execute tick\<close>

lemma scan_result:
  "scan fromiso now i entries = Inr ds \<Longrightarrow>
     (ds = [] \<and> list_all (\<lambda>e. in_window fromiso now e = Inr False) entries)
     \<or> (\<exists>k. k < length entries
            \<and> in_window fromiso now (entries ! k) = Inr True
            \<and> (\<forall>j<k. in_window fromiso now (entries ! j) = Inr False)
            \<and> (\<exists>x. execute_entry (i + k) (entries ! k) = Inr x \<and> ds = [x]))"
proof (induction entries arbitrary: i)
  case Nil
  then show ?case by simp
next
  case (Cons e es)
  from Cons.prems obtain hit where hit: "in_window fromiso now e = Inr hit"
    by (auto simp: and_then_Inr_iff)
  show ?case
  proof (cases hit)
    case True
    with Cons.prems hit obtain x where "execute_entry i e = Inr x" "ds = [x]"
      by (auto simp: and_then_Inr_iff)
    with hit True have "0 < length (e # es)
            \<and> in_window fromiso now ((e # es) ! 0) = Inr True
            \<and> (\<forall>j<0. in_window fromiso now ((e # es) ! j) = Inr False)
            \<and> (\<exists>x. execute_entry (i + 0) ((e # es) ! 0) = Inr x \<and> ds = [x])"
      by simp
    then show ?thesis by blast
  next
    case False
    with Cons.prems hit have rest: "scan fromiso now (Suc i) es = Inr ds"
      by simp
    from Cons.IH [OF rest] show ?thesis
    proof
      assume "ds = [] \<and> list_all (\<lambda>e. in_window fromiso now e = Inr False) es"
      with hit False show ?thesis by simp
    next
      assume "\<exists>k. k < length es
            \<and> in_window fromiso now (es ! k) = Inr True
            \<and> (\<forall>j<k. in_window fromiso now (es ! j) = Inr False)
            \<and> (\<exists>x. execute_entry (Suc i + k) (es ! k) = Inr x \<and> ds = [x])"
      then obtain k x where k: "k < length es" "in_window fromiso now (es ! k) = Inr True"
        "\<forall>j<k. in_window fromiso now (es ! j) = Inr False"
        "execute_entry (Suc i + k) (es ! k) = Inr x" "ds = [x]"
        by blast
      have "\<forall>j<Suc k. in_window fromiso now ((e # es) ! j) = Inr False"
        using k(3) hit False by (auto simp: less_Suc_eq_0_disj)
      with k have "Suc k < length (e # es)
            \<and> in_window fromiso now ((e # es) ! Suc k) = Inr True
            \<and> (\<forall>j<Suc k. in_window fromiso now ((e # es) ! j) = Inr False)
            \<and> (\<exists>x. execute_entry (i + Suc k) ((e # es) ! Suc k) = Inr x \<and> ds = [x])"
        by simp
      then show ?thesis by blast
    qed
  qed
qed


lemma execute_entry_index: "execute_entry i e = Inr x \<Longrightarrow> entry_index x = i"
proof -
  assume a: "execute_entry i e = Inr x"
  then obtain mode rate where
    b: "except_Exception
         (and_then (execute_command mode rate) (\<lambda>(success, actual_rate).
            if success
            then Inr \<lparr>entry_index = i, cmd_mode = mode, cmd_rate = rate,
                      ack_status = ''success'', ack_rate = actual_rate\<rparr>
            else Inr \<lparr>entry_index = i, cmd_mode = mode, cmd_rate = rate,
                      ack_status = ''failed'', ack_rate = None\<rparr>))
         \<lparr>entry_index = i, cmd_mode = mode, cmd_rate = rate,
          ack_status = ''failed'', ack_rate = None\<rparr> = Inr x"
    unfolding execute_entry_def and_then_Inr_iff by blast
  show ?thesis
  proof (cases "execute_command mode rate")
    case (Inl err)
    with b show ?thesis
      by (auto simp: except_Exception_def split: if_splits)
  next
    case (Inr res)
    with b show ?thesis
      by (cases res) (auto simp: except_Exception_def split: if_splits)
  qed
qed


lemma scan_hit:
  "k < length entries \<Longrightarrow> in_window fromiso now (entries ! k) = Inr True \<Longrightarrow>
   (\<forall>j<k. in_window fromiso now (entries ! j) = Inr False) \<Longrightarrow>
   execute_entry (i + k) (entries ! k) = Inr x \<Longrightarrow>
   scan fromiso now i entries = Inr [x]"
proof (induction entries arbitrary: i k)
  case Nil
  then show ?case by simp
next
  case (Cons e es)
  show ?case
  proof (cases k)
    case 0
    with Cons.prems show ?thesis by simp
  next
    case (Suc k')
    with Cons.prems have "in_window fromiso now e = Inr False" by auto
    moreover have "scan fromiso now (Suc i) es = Inr [x]"
      using Cons.prems Suc by (intro Cons.IH [of k']) auto
    ultimately show ?thesis by simp
  qed
qed



text \<open>
  Claim C3 says that an entry is dispatched at most once for each activation of its
  schedule. The daemon keeps no record of what it has dispatched: two ticks, 30 seconds
  apart and both in the window of entry 0, dispatch entry 0 twice.
\<close>

theorem redispatch_on_every_tick_counterexample:
  "map entry_index (fst (snd (run fromisoformat_basic
     \<lparr>device_id = ''RPI-001'', current_schedule = None, schedules = []\<rparr>
     [Receive (PyList
        [mk_entry (PyStr ''2025-12-25T00:00:00'') (PyStr ''2025-12-25T00:30:00'')
           (PyInt 1) (PyInt 100)]) Commits,
      Tick (Datetime 2025 12 25 0 0 10 0 None),
      Tick (Datetime 2025 12 25 0 0 40 0 None)])))
   = [0, 0]"
  by code_simp


section \<open>Ticks over time\<close>

lemma local_entries_nth:
  "local_entries i es = Inr [] \<Longrightarrow> k < length es \<Longrightarrow>
   local_entry_errors (i + k) (es ! k) = Inr []"
proof (induction es arbitrary: i k)
  case Nil
  then show ?case by simp
next
  case (Cons e es)
  from Cons.prems(1) have e: "local_entry_errors i e = Inr []"
    and rest: "local_entries (Suc i) es = Inr []"
    by (auto simp: and_then_Inr_iff)
  show ?case
  proof (cases k)
    case 0
    with e show ?thesis by simp
  next
    case (Suc k')
    with Cons.prems(2) have "k' < length es" by simp
    from Cons.IH [OF rest this] Suc show ?thesis by simp
  qed
qed

lemma local_entry_errors_Nil:
  assumes "local_entry_errors i e = Inr []"
  shows "\<exists>kvs mode rate. e = PyDict kvs
    \<and> map_of kvs ''mode'' = Some mode \<and> map_of kvs ''rate_kw'' = Some rate
    \<and> (py_eq_int mode 1 \<or> py_eq_int mode 2) \<and> \<not> rate_rejected rate"
proof -
  from assms obtain kvs where e: "e = PyDict kvs"
    by (cases e) (auto simp: local_entry_errors_def)
  from assms e obtain mode_errors rate_errors where
    m: "(case map_of kvs ''mode'' of
           None \<Rightarrow> Inr []
         | Some mode \<Rightarrow>
             if py_eq_int mode 1 \<or> py_eq_int mode 2 then Inr []
             else and_then (format_values [mode]) (\<lambda>_. Inr [LocalBadMode i mode]))
        = Inr mode_errors"
    and r: "(case map_of kvs ''rate_kw'' of
           None \<Rightarrow> Inr []
         | Some rate \<Rightarrow>
             if rate_rejected rate
             then and_then (format_values [rate]) (\<lambda>_. Inr [LocalBadRate i rate])
             else Inr [])
        = Inr rate_errors"
    and all: "map (LocalMissingField i)
                (filter (\<lambda>field. map_of kvs field = None) required_fields)
              @ mode_errors @ rate_errors = []"
    by (auto simp: local_entry_errors_def and_then_Inr_iff)
  from all have none: "mode_errors = []" "rate_errors = []"
    and present: "filter (\<lambda>field. map_of kvs field = None) required_fields = []"
    by simp_all
  from present obtain mode rate where
    f: "map_of kvs ''mode'' = Some mode" "map_of kvs ''rate_kw'' = Some rate"
    by (auto simp: required_fields_def split: if_splits)
  from m f none have "py_eq_int mode 1 \<or> py_eq_int mode 2"
    by (auto simp: and_then_Inr_iff split: if_splits)
  moreover from r f none have "\<not> rate_rejected rate"
    by (auto simp: and_then_Inr_iff split: if_splits)
  ultimately show ?thesis using e f by blast
qed

lemma mode_formats: "py_eq_int mode 1 \<or> py_eq_int mode 2 \<Longrightarrow> format_value mode = None"
  by (cases mode) (auto simp: format_value_simps int_too_long_small format_value_def)

lemma rate_formats: "\<not> rate_rejected rate \<Longrightarrow> format_value rate = None"
  by (cases rate) (auto simp: format_value_simps int_too_long_small)

lemma mul_float_accepted:
  "\<not> rate_rejected rate \<Longrightarrow> \<exists>a. mul_float rate c = Inr a"
  by (cases "(rate, c)" rule: mul_float.cases) auto

lemma control_call_accepted:
  "py_eq_int mode 1 \<or> py_eq_int mode 2 \<Longrightarrow> \<not> rate_rejected rate \<Longrightarrow>
   \<exists>a. control_call mode rate = Inr a"
  using mul_float_accepted [of rate]
  by (auto simp: control_call_def execute_discharge_def execute_charge_def
      format_values_Cons format_values_Nil rate_formats)

lemma execute_entry_accepted:
  assumes "local_entry_errors i e = Inr []"
  shows "\<exists>x. execute_entry k e = Inr x \<and> entry_index x = k \<and> ack_status x = ''success''"
proof -
  from local_entry_errors_Nil [OF assms] obtain kvs mode rate where
    e: "e = PyDict kvs" "map_of kvs ''mode'' = Some mode" "map_of kvs ''rate_kw'' = Some rate"
    and ok: "py_eq_int mode 1 \<or> py_eq_int mode 2" "\<not> rate_rejected rate"
    by blast
  from ok have fmt: "format_values [mode, rate] = Inr ()"
    by (simp add: format_values_Cons format_values_Nil mode_formats rate_formats)
  from control_call_accepted [OF ok] obtain a where a: "control_call mode rate = Inr a"
    by blast
  with execute_command_converts [OF fmt]
  have "execute_command mode rate = Inr (True, Some a)" by simp
  with e fmt show ?thesis
    by (simp add: execute_entry_def except_Exception_def)
qed

lemma scan_raises:
  "k < length entries \<Longrightarrow> in_window fromiso now (entries ! k) = Inl e \<Longrightarrow>
   (\<forall>j<k. in_window fromiso now (entries ! j) = Inr False) \<Longrightarrow>
   scan fromiso now i entries = Inl e"
proof (induction entries arbitrary: i k)
  case Nil
  then show ?case by simp
next
  case (Cons en es)
  show ?case
  proof (cases k)
    case 0
    with Cons.prems show ?thesis by simp
  next
    case (Suc k')
    with Cons.prems have "in_window fromiso now en = Inr False" by auto
    moreover have "scan fromiso now (Suc i) es = Inl e"
      using Cons.prems Suc by (intro Cons.IH [of k']) auto
    ultimately show ?thesis by simp
  qed
qed

lemma run_ticks:
  assumes "current_schedule d = Some (PyList entries)" "entries \<noteq> []"
    and "\<forall>now \<in> set nows. scan fromiso now 0 entries = Inr [x]"
    and "snd (run fromiso d evs) = ([], r)"
  shows "snd (run fromiso d (map Tick nows @ evs)) = (replicate (length nows) x, r)"
  using assms(3)
proof (induction nows)
  case Nil
  with assms(4) show ?case by simp
next
  case (Cons now nows)
  then have "check_and_execute fromiso now d = Inr [x]"
    using assms(1,2) by (simp add: check_and_execute_def)
  with Cons show ?case
    by (cases "run fromiso d (map Tick nows @ evs)") simp
qed

lemma in_window_aware:
  "entry_time fromiso entry ''start_time'' = Inr st \<Longrightarrow>
   entry_time fromiso entry ''end_time'' = Inr en \<Longrightarrow> aware st \<Longrightarrow> \<not> aware now \<Longrightarrow>
   in_window fromiso now entry = Inl TypeError"
  by (simp add: in_window_def dt_le_def)

lemma store_schedule_keeps:
  "current_schedule (fst (store_schedule outcome d s)) = current_schedule d"
  "snd (store_schedule outcome d s) = Some e \<Longrightarrow> is_Exception e"
  by (auto simp: store_schedule_def dest: format_value_exn
      split: db_outcome.splits option.splits if_splits)

lemma run_receive_valid:
  assumes "validate_schedule_locally s = Inr (True, errs)"
  shows "\<exists>d'. current_schedule d' = Some s
    \<and> (\<forall>evs. run fromiso d (Receive s outcome # evs) = run fromiso d' evs)"
proof -
  define d1 where "d1 = d\<lparr>current_schedule := Some s\<rparr>"
  obtain d' r where p: "store_schedule outcome d1 s = (d', r)"
    by (cases "store_schedule outcome d1 s")
  from store_schedule_keeps [of outcome d1 s] p
  have cur: "current_schedule d' = Some s" and exn: "\<And>e. r = Some e \<Longrightarrow> is_Exception e"
    by (simp_all add: d1_def)
  from assms p have "process_schedule outcome d s = (d', r)"
    by (simp add: process_schedule_def d1_def)
  then have "run fromiso d (Receive s outcome # evs) = run fromiso d' evs" for evs
    using exn by (cases r) simp_all
  with cur show ?thesis by blast
qed

text \<open>
  Claim C3, amended. The daemon keeps no record of what it has dispatched. After a
  schedule that passes the local validation is received, every tick at which the window
  test \<^verbatim>\<open>start_time <= now < end_time\<close> evaluates to true for entry \<open>k\<close> and to false
  for every entry before it dispatches entry \<open>k\<close>, and the command succeeds, whether or
  not an earlier tick has dispatched the entry: \<open>n\<close> such ticks are \<open>n\<close> dispatches of
  it. A tick at which the first window test that is not false raises an exception
  dispatches nothing and ends the execute loop with that exception, whatever events
  follow. The window test raises \<^verbatim>\<open>TypeError\<close> for an entry whose times are read as
  timezone-aware when the current time is naive, as that of \<^verbatim>\<open>datetime.utcnow()\<close> is.
  Receiving a schedule only installs the list that later ticks scan.
\<close>

theorem every_matching_tick_dispatches:
  assumes valid: "validate_schedule_locally (PyList entries) = Inr (True, errs)"
    and k: "k < length entries"
    and hits: "\<forall>now \<in> set nows. in_window fromiso now (entries ! k) = Inr True
                 \<and> (\<forall>j<k. in_window fromiso now (entries ! j) = Inr False)"
  shows "\<exists>x. entry_index x = k \<and> ack_status x = ''success''
     \<and> snd (run fromiso d (Receive (PyList entries) outcome # map Tick nows))
         = (replicate (length nows) x, None)
     \<and> (\<forall>bad m e evs.
           m < length entries \<and> in_window fromiso bad (entries ! m) = Inl e
           \<and> (\<forall>j<m. in_window fromiso bad (entries ! j) = Inr False) \<longrightarrow>
           snd (run fromiso d
                  (Receive (PyList entries) outcome # map Tick nows @ Tick bad # evs))
             = (replicate (length nows) x, Some e))
     \<and> (\<forall>now entry st en.
           entry_time fromiso entry ''start_time'' = Inr st
           \<and> entry_time fromiso entry ''end_time'' = Inr en \<and> aware st \<and> \<not> aware now \<longrightarrow>
           in_window fromiso now entry = Inl TypeError)"
proof -
  from k have ne: "entries \<noteq> []" by auto
  from valid ne have loc: "local_entries 0 entries = Inr []"
    by (auto simp: validate_schedule_locally_def and_then_Inr_iff)
  from run_receive_valid [OF valid, of fromiso d outcome] obtain d' where
    cur: "current_schedule d' = Some (PyList entries)"
    and recv: "\<And>evs. run fromiso d (Receive (PyList entries) outcome # evs) = run fromiso d' evs"
    by blast
  from local_entries_nth [OF loc k] have "local_entry_errors k (entries ! k) = Inr []"
    by simp
  from execute_entry_accepted [OF this, of k] obtain x where
    x: "execute_entry k (entries ! k) = Inr x" "entry_index x = k" "ack_status x = ''success''"
    by blast
  have scans: "\<forall>now \<in> set nows. scan fromiso now 0 entries = Inr [x]"
    using hits k x(1) by (auto intro!: scan_hit [where k = k])
  have "snd (run fromiso d' (map Tick nows @ [])) = (replicate (length nows) x, None)"
    by (rule run_ticks [OF cur ne scans]) simp
  with recv [of "map Tick nows"]
  have a: "snd (run fromiso d (Receive (PyList entries) outcome # map Tick nows))
      = (replicate (length nows) x, None)"
    by simp
  have b: "snd (run fromiso d
                  (Receive (PyList entries) outcome # map Tick nows @ Tick bad # evs))
             = (replicate (length nows) x, Some e)"
    if "m < length entries \<and> in_window fromiso bad (entries ! m) = Inl e
           \<and> (\<forall>j<m. in_window fromiso bad (entries ! j) = Inr False)"
    for bad m e evs
  proof -
    from that have "scan fromiso bad 0 entries = Inl e"
      by (intro scan_raises [where k = m]) auto
    with cur ne have "check_and_execute fromiso bad d' = Inl e"
      by (simp add: check_and_execute_def)
    then have "snd (run fromiso d' (Tick bad # evs)) = ([], Some e)"
      by simp
    from run_ticks [OF cur ne scans this] recv [of "map Tick nows @ Tick bad # evs"]
    show ?thesis by simp
  qed
  have c: "in_window fromiso now entry = Inl TypeError"
    if "entry_time fromiso entry ''start_time'' = Inr st
           \<and> entry_time fromiso entry ''end_time'' = Inr en \<and> aware st \<and> \<not> aware now"
    for now entry st en
    using that by (auto intro: in_window_aware)
  from x(2,3) a b c show ?thesis by blast
qed

theorem every_matching_tick_dispatches_witness:
  "validate_schedule_locally (PyList
        [mk_entry (PyStr ''2025-12-25T00:00:00'') (PyStr ''2025-12-25T00:30:00'')
           (PyInt 1) (PyInt 100),
         mk_entry (PyStr ''2025-12-25T00:30:00Z'') (PyStr ''2025-12-25T01:00:00Z'')
           (PyInt 2) (PyInt 50)]) = Inr (True, [])
   \<and> in_window fromisoformat_basic (Datetime 2025 12 25 0 0 10 0 None)
        (mk_entry (PyStr ''2025-12-25T00:00:00'') (PyStr ''2025-12-25T00:30:00'')
           (PyInt 1) (PyInt 100)) = Inr True
   \<and> in_window fromisoformat_basic (Datetime 2025 12 25 0 0 40 0 None)
        (mk_entry (PyStr ''2025-12-25T00:00:00'') (PyStr ''2025-12-25T00:30:00'')
           (PyInt 1) (PyInt 100)) = Inr True
   \<and> in_window fromisoformat_basic (Datetime 2025 12 25 0 40 0 0 None)
        (mk_entry (PyStr ''2025-12-25T00:00:00'') (PyStr ''2025-12-25T00:30:00'')
           (PyInt 1) (PyInt 100)) = Inr False
   \<and> in_window fromisoformat_basic (Datetime 2025 12 25 0 40 0 0 None)
        (mk_entry (PyStr ''2025-12-25T00:30:00Z'') (PyStr ''2025-12-25T01:00:00Z'')
           (PyInt 2) (PyInt 50)) = Inl TypeError
   \<and> snd (run fromisoformat_basic \<lparr>device_id = ''RPI-001'', current_schedule = None, schedules = []\<rparr>
       (Receive (PyList
        [mk_entry (PyStr ''2025-12-25T00:00:00'') (PyStr ''2025-12-25T00:30:00'')
           (PyInt 1) (PyInt 100),
         mk_entry (PyStr ''2025-12-25T00:30:00Z'') (PyStr ''2025-12-25T01:00:00Z'')
           (PyInt 2) (PyInt 50)]) Commits
        # map Tick [Datetime 2025 12 25 0 0 10 0 None, Datetime 2025 12 25 0 0 40 0 None]))
     = ([\<lparr>entry_index = 0, cmd_mode = PyInt 1, cmd_rate = PyInt 100,
          ack_status = ''success'', ack_rate = Some (PyFloat (FNum 98))\<rparr>,
         \<lparr>entry_index = 0, cmd_mode = PyInt 1, cmd_rate = PyInt 100,
          ack_status = ''success'', ack_rate = Some (PyFloat (FNum 98))\<rparr>], None)
   \<and> snd (run fromisoformat_basic \<lparr>device_id = ''RPI-001'', current_schedule = None, schedules = []\<rparr>
       (Receive (PyList
        [mk_entry (PyStr ''2025-12-25T00:00:00'') (PyStr ''2025-12-25T00:30:00'')
           (PyInt 1) (PyInt 100),
         mk_entry (PyStr ''2025-12-25T00:30:00Z'') (PyStr ''2025-12-25T01:00:00Z'')
           (PyInt 2) (PyInt 50)]) Commits
        # map Tick [Datetime 2025 12 25 0 0 10 0 None, Datetime 2025 12 25 0 0 40 0 None]
        @ Tick (Datetime 2025 12 25 0 40 0 0 None) # [Tick (Datetime 2025 12 25 0 40 30 0 None)]))
     = ([\<lparr>entry_index = 0, cmd_mode = PyInt 1, cmd_rate = PyInt 100,
          ack_status = ''success'', ack_rate = Some (PyFloat (FNum 98))\<rparr>,
         \<lparr>entry_index = 0, cmd_mode = PyInt 1, cmd_rate = PyInt 100,
          ack_status = ''success'', ack_rate = Some (PyFloat (FNum 98))\<rparr>], Some TypeError)"
proof -
  have v: "validate_schedule_locally (PyList
        [mk_entry (PyStr ''2025-12-25T00:00:00'') (PyStr ''2025-12-25T00:30:00'')
           (PyInt 1) (PyInt 100),
         mk_entry (PyStr ''2025-12-25T00:30:00Z'') (PyStr ''2025-12-25T01:00:00Z'')
           (PyInt 2) (PyInt 50)]) = Inr (True, [])"
    by code_simp
  have w1: "in_window fromisoformat_basic (Datetime 2025 12 25 0 0 10 0 None)
        (mk_entry (PyStr ''2025-12-25T00:00:00'') (PyStr ''2025-12-25T00:30:00'')
           (PyInt 1) (PyInt 100)) = Inr True"
    by code_simp
  have w2: "in_window fromisoformat_basic (Datetime 2025 12 25 0 0 40 0 None)
        (mk_entry (PyStr ''2025-12-25T00:00:00'') (PyStr ''2025-12-25T00:30:00'')
           (PyInt 1) (PyInt 100)) = Inr True"
    by code_simp
  have w3: "in_window fromisoformat_basic (Datetime 2025 12 25 0 40 0 0 None)
        (mk_entry (PyStr ''2025-12-25T00:00:00'') (PyStr ''2025-12-25T00:30:00'')
           (PyInt 1) (PyInt 100)) = Inr False"
    by code_simp
  have st: "entry_time fromisoformat_basic
        (mk_entry (PyStr ''2025-12-25T00:30:00Z'') (PyStr ''2025-12-25T01:00:00Z'')
           (PyInt 2) (PyInt 50)) ''start_time''
      = Inr (Datetime 2025 12 25 0 30 0 0 (Some 0))"
    by code_simp
  have en: "entry_time fromisoformat_basic
        (mk_entry (PyStr ''2025-12-25T00:30:00Z'') (PyStr ''2025-12-25T01:00:00Z'')
           (PyInt 2) (PyInt 50)) ''end_time''
      = Inr (Datetime 2025 12 25 1 0 0 0 (Some 0))"
    by code_simp
  have hits: "\<forall>now \<in> set [Datetime 2025 12 25 0 0 10 0 None, Datetime 2025 12 25 0 0 40 0 None].
      in_window fromisoformat_basic now
        ([mk_entry (PyStr ''2025-12-25T00:00:00'') (PyStr ''2025-12-25T00:30:00'')
           (PyInt 1) (PyInt 100),
         mk_entry (PyStr ''2025-12-25T00:30:00Z'') (PyStr ''2025-12-25T01:00:00Z'')
           (PyInt 2) (PyInt 50)] ! 0) = Inr True
      \<and> (\<forall>j<0. in_window fromisoformat_basic now
        ([mk_entry (PyStr ''2025-12-25T00:00:00'') (PyStr ''2025-12-25T00:30:00'')
           (PyInt 1) (PyInt 100),
         mk_entry (PyStr ''2025-12-25T00:30:00Z'') (PyStr ''2025-12-25T01:00:00Z'')
           (PyInt 2) (PyInt 50)] ! j) = Inr False)"
    using w1 w2 by simp
  from every_matching_tick_dispatches [OF v _ hits,
      of "\<lparr>device_id = ''RPI-001'', current_schedule = None, schedules = []\<rparr>" Commits]
  obtain x where
    a: "snd (run fromisoformat_basic \<lparr>device_id = ''RPI-001'', current_schedule = None, schedules = []\<rparr>
       (Receive (PyList
        [mk_entry (PyStr ''2025-12-25T00:00:00'') (PyStr ''2025-12-25T00:30:00'')
           (PyInt 1) (PyInt 100),
         mk_entry (PyStr ''2025-12-25T00:30:00Z'') (PyStr ''2025-12-25T01:00:00Z'')
           (PyInt 2) (PyInt 50)]) Commits
        # map Tick [Datetime 2025 12 25 0 0 10 0 None, Datetime 2025 12 25 0 0 40 0 None]))
     = (replicate (length [Datetime 2025 12 25 0 0 10 0 None, Datetime 2025 12 25 0 0 40 0 None]) x, None)"
    and b: "\<And>bad m e evs.
           m < length [mk_entry (PyStr ''2025-12-25T00:00:00'') (PyStr ''2025-12-25T00:30:00'')
           (PyInt 1) (PyInt 100),
         mk_entry (PyStr ''2025-12-25T00:30:00Z'') (PyStr ''2025-12-25T01:00:00Z'')
           (PyInt 2) (PyInt 50)]
           \<and> in_window fromisoformat_basic bad ([mk_entry (PyStr ''2025-12-25T00:00:00'') (PyStr ''2025-12-25T00:30:00'')
           (PyInt 1) (PyInt 100),
         mk_entry (PyStr ''2025-12-25T00:30:00Z'') (PyStr ''2025-12-25T01:00:00Z'')
           (PyInt 2) (PyInt 50)] ! m) = Inl e
           \<and> (\<forall>j<m. in_window fromisoformat_basic bad ([mk_entry (PyStr ''2025-12-25T00:00:00'') (PyStr ''2025-12-25T00:30:00'')
           (PyInt 1) (PyInt 100),
         mk_entry (PyStr ''2025-12-25T00:30:00Z'') (PyStr ''2025-12-25T01:00:00Z'')
           (PyInt 2) (PyInt 50)] ! j) = Inr False) \<Longrightarrow>
           snd (run fromisoformat_basic \<lparr>device_id = ''RPI-001'', current_schedule = None, schedules = []\<rparr>
                  (Receive (PyList [mk_entry (PyStr ''2025-12-25T00:00:00'') (PyStr ''2025-12-25T00:30:00'')
           (PyInt 1) (PyInt 100),
         mk_entry (PyStr ''2025-12-25T00:30:00Z'') (PyStr ''2025-12-25T01:00:00Z'')
           (PyInt 2) (PyInt 50)]) Commits
                   # map Tick [Datetime 2025 12 25 0 0 10 0 None, Datetime 2025 12 25 0 0 40 0 None] @ Tick bad # evs))
             = (replicate (length [Datetime 2025 12 25 0 0 10 0 None, Datetime 2025 12 25 0 0 40 0 None]) x, Some e)"
    and c: "\<And>now entry st en.
           entry_time fromisoformat_basic entry ''start_time'' = Inr st
           \<and> entry_time fromisoformat_basic entry ''end_time'' = Inr en
           \<and> aware st \<and> \<not> aware now \<Longrightarrow>
           in_window fromisoformat_basic now entry = Inl TypeError"
    by auto
  have run2: "snd (run fromisoformat_basic \<lparr>device_id = ''RPI-001'', current_schedule = None, schedules = []\<rparr>
       (Receive (PyList
        [mk_entry (PyStr ''2025-12-25T00:00:00'') (PyStr ''2025-12-25T00:30:00'')
           (PyInt 1) (PyInt 100),
         mk_entry (PyStr ''2025-12-25T00:30:00Z'') (PyStr ''2025-12-25T01:00:00Z'')
           (PyInt 2) (PyInt 50)]) Commits
        # map Tick [Datetime 2025 12 25 0 0 10 0 None, Datetime 2025 12 25 0 0 40 0 None]))
     = ([\<lparr>entry_index = 0, cmd_mode = PyInt 1, cmd_rate = PyInt 100,
          ack_status = ''success'', ack_rate = Some (PyFloat (FNum 98))\<rparr>,
         \<lparr>entry_index = 0, cmd_mode = PyInt 1, cmd_rate = PyInt 100,
          ack_status = ''success'', ack_rate = Some (PyFloat (FNum 98))\<rparr>], None)"
    by code_simp
  with a have x: "x = \<lparr>entry_index = 0, cmd_mode = PyInt 1, cmd_rate = PyInt 100,
          ack_status = ''success'', ack_rate = Some (PyFloat (FNum 98))\<rparr>"
    by simp
  have w4: "in_window fromisoformat_basic (Datetime 2025 12 25 0 40 0 0 None)
        (mk_entry (PyStr ''2025-12-25T00:30:00Z'') (PyStr ''2025-12-25T01:00:00Z'')
           (PyInt 2) (PyInt 50)) = Inl TypeError"
    by (rule c [where st = "Datetime 2025 12 25 0 30 0 0 (Some 0)"
          and en = "Datetime 2025 12 25 1 0 0 0 (Some 0)"])
      (simp add: st en aware_def)
  have "\<forall>j<1. in_window fromisoformat_basic (Datetime 2025 12 25 0 40 0 0 None) ([mk_entry (PyStr ''2025-12-25T00:00:00'') (PyStr ''2025-12-25T00:30:00'')
           (PyInt 1) (PyInt 100),
         mk_entry (PyStr ''2025-12-25T00:30:00Z'') (PyStr ''2025-12-25T01:00:00Z'')
           (PyInt 2) (PyInt 50)] ! j) = Inr False"
    using w3 by simp
  with w4 have "snd (run fromisoformat_basic \<lparr>device_id = ''RPI-001'', current_schedule = None, schedules = []\<rparr>
                  (Receive (PyList [mk_entry (PyStr ''2025-12-25T00:00:00'') (PyStr ''2025-12-25T00:30:00'')
           (PyInt 1) (PyInt 100),
         mk_entry (PyStr ''2025-12-25T00:30:00Z'') (PyStr ''2025-12-25T01:00:00Z'')
           (PyInt 2) (PyInt 50)]) Commits
                   # map Tick [Datetime 2025 12 25 0 0 10 0 None, Datetime 2025 12 25 0 0 40 0 None] @ Tick (Datetime 2025 12 25 0 40 0 0 None) # [Tick (Datetime 2025 12 25 0 40 30 0 None)]))
             = (replicate (length [Datetime 2025 12 25 0 0 10 0 None, Datetime 2025 12 25 0 0 40 0 None]) x, Some TypeError)"
    by (intro b [where m = 1]) simp
  with x have run3: "snd (run fromisoformat_basic \<lparr>device_id = ''RPI-001'', current_schedule = None, schedules = []\<rparr>
       (Receive (PyList
        [mk_entry (PyStr ''2025-12-25T00:00:00'') (PyStr ''2025-12-25T00:30:00'')
           (PyInt 1) (PyInt 100),
         mk_entry (PyStr ''2025-12-25T00:30:00Z'') (PyStr ''2025-12-25T01:00:00Z'')
           (PyInt 2) (PyInt 50)]) Commits
        # map Tick [Datetime 2025 12 25 0 0 10 0 None, Datetime 2025 12 25 0 0 40 0 None]
        @ Tick (Datetime 2025 12 25 0 40 0 0 None) # [Tick (Datetime 2025 12 25 0 40 30 0 None)]))
     = ([\<lparr>entry_index = 0, cmd_mode = PyInt 1, cmd_rate = PyInt 100,
          ack_status = ''success'', ack_rate = Some (PyFloat (FNum 98))\<rparr>,
         \<lparr>entry_index = 0, cmd_mode = PyInt 1, cmd_rate = PyInt 100,
          ack_status = ''success'', ack_rate = Some (PyFloat (FNum 98))\<rparr>], Some TypeError)"
    by simp
  from v w1 w2 w3 w4 run2 run3 show ?thesis by blast
qed

section \<open>Receiving a schedule\<close>

lemma local_entry_errors_ok:
  "py_eq_int mode 1 \<or> py_eq_int mode 2 \<Longrightarrow> \<not> rate_rejected rate \<Longrightarrow>
   local_entry_errors i (mk_entry st en mode rate) = Inr []"
  by (auto simp: local_entry_errors_def mk_entry_def required_fields_def)

lemma local_entries_ok:
  "list_all (\<lambda>(st, en, mode, rate). (py_eq_int mode 1 \<or> py_eq_int mode 2) \<and> \<not> rate_rejected rate) qs \<Longrightarrow>
   local_entries i (map (\<lambda>(st, en, mode, rate). mk_entry st en mode rate) qs) = Inr []"
  by (induction qs arbitrary: i) (auto simp: local_entry_errors_ok)

lemma local_bad_mode_raises:
  assumes "int_too_long n"
  shows "validate_schedule_locally (PyList [mk_entry st en (PyInt n) rate]) = Inl ValueError"
proof -
  from assms int_too_long_small [of n] have "n \<noteq> 1" "n \<noteq> 2" by auto
  with assms show ?thesis
    by (simp add: validate_schedule_locally_def local_entry_errors_def mk_entry_def
        format_values_Cons format_value_simps)
qed

lemma stored_active_store:
  assumes "format_value s = None"
  shows "snd (store_schedule Commits d s) = None"
    and "stored_active (fst (store_schedule Commits d s)) = [s]"
proof -
  have "filter (\<lambda>r. row_device r = device_id d \<and> row_status r = ''active'')
          (map (\<lambda>r. if row_device r = device_id d \<and> row_status r = ''active''
                      then r\<lparr>row_status := ''inactive''\<rparr> else r) rows) = []" for rows
    by (induction rows) auto
  with assms show "stored_active (fst (store_schedule Commits d s)) = [s]"
    by (simp add: stored_active_def store_schedule_def)
  from assms show "snd (store_schedule Commits d s) = None"
    by (simp add: store_schedule_def)
qed

text \<open>
  Claim C6 says that a received schedule with a temporal error is rejected and the active
  schedule stays. The local validation looks at no timestamp: a schedule whose only entry
  ends an hour before it starts, which the cloud validator rejects for that reason,
  replaces the schedule in memory and becomes the active row of the database.
\<close>

theorem local_validation_ignores_time_counterexample:
  "process_schedule Commits
     \<lparr>device_id = ''RPI-001'',
      current_schedule = Some (PyList
        [mk_entry (PyStr ''2025-12-25T00:00:00Z'') (PyStr ''2025-12-25T00:30:00Z'')
           (PyInt 1) (PyInt 100)]),
      schedules = [\<lparr>row_device = ''RPI-001'',
        row_data = PyList
          [mk_entry (PyStr ''2025-12-25T00:00:00Z'') (PyStr ''2025-12-25T00:30:00Z'')
             (PyInt 1) (PyInt 100)],
        row_status = ''active''\<rparr>]\<rparr>
     (PyList
        [mk_entry (PyStr ''2025-12-25T02:00:00Z'') (PyStr ''2025-12-25T01:00:00Z'')
           (PyInt 2) (PyInt 50)])
   = (\<lparr>device_id = ''RPI-001'',
      current_schedule = Some (PyList
        [mk_entry (PyStr ''2025-12-25T02:00:00Z'') (PyStr ''2025-12-25T01:00:00Z'')
           (PyInt 2) (PyInt 50)]),
      schedules = [\<lparr>row_device = ''RPI-001'',
        row_data = PyList
          [mk_entry (PyStr ''2025-12-25T00:00:00Z'') (PyStr ''2025-12-25T00:30:00Z'')
             (PyInt 1) (PyInt 100)],
        row_status = ''inactive''\<rparr>,
        \<lparr>row_device = ''RPI-001'',
        row_data = PyList
          [mk_entry (PyStr ''2025-12-25T02:00:00Z'') (PyStr ''2025-12-25T01:00:00Z'')
             (PyInt 2) (PyInt 50)],
        row_status = ''active''\<rparr>]\<rparr>, None)
   \<and> validate_schedule (\<lambda>s. None) default_validator
        (PyList
          [mk_entry (PyStr ''2025-12-25T02:00:00Z'') (PyStr ''2025-12-25T01:00:00Z'')
             (PyInt 2) (PyInt 50)]) None
      = Inr (False, [StartNotBeforeEnd (Some 0)])"
  by code_simp

text \<open>
  Claim C6, amended. The daemon rejects a received schedule, and leaves its state as it
  is, when the local validation fails (no list, an empty list, an entry that is no
  dictionary, a missing field, a mode other than 1 and 2, a rate that is no number in
  [0, 1000]); when the local validation raises, the exception leaves
  \<^verbatim>\<open>_process_schedule\<close> before the state is touched. The local validation checks no
  temporal property: a non-empty list of entries with the four fields, a mode that equals
  1 or 2 and a rate that the check of the rate lets pass is accepted whatever its start
  and end are; it becomes the schedule in memory, whatever the database does, and, when
  the schedule can be serialized and the transaction commits, the only active schedule of
  the database.
\<close>

theorem local_validation_ignores_time:
  "(validate_schedule_locally s = Inr (False, errs) \<longrightarrow>
      process_schedule outcome d s = (d, None))
   \<and> (validate_schedule_locally s = Inl e \<longrightarrow> process_schedule outcome d s = (d, Some e))
   \<and> (qs \<noteq> [] \<and> list_all (\<lambda>(st, en, mode, rate). (py_eq_int mode 1 \<or> py_eq_int mode 2) \<and> \<not> rate_rejected rate) qs \<longrightarrow>
        current_schedule (fst (process_schedule outcome d (PyList (map (\<lambda>(st, en, mode, rate). mk_entry st en mode rate) qs))))
        = Some (PyList (map (\<lambda>(st, en, mode, rate). mk_entry st en mode rate) qs))
        \<and> (format_value (PyList (map (\<lambda>(st, en, mode, rate). mk_entry st en mode rate) qs)) = None \<longrightarrow>
              snd (process_schedule Commits d (PyList (map (\<lambda>(st, en, mode, rate). mk_entry st en mode rate) qs))) = None
              \<and> stored_active (fst (process_schedule Commits d (PyList (map (\<lambda>(st, en, mode, rate). mk_entry st en mode rate) qs))))
                = [PyList (map (\<lambda>(st, en, mode, rate). mk_entry st en mode rate) qs)]))"
proof (intro conjI impI)
  assume "validate_schedule_locally s = Inr (False, errs)"
  then show "process_schedule outcome d s = (d, None)"
    by (simp add: process_schedule_def)
next
  assume "validate_schedule_locally s = Inl e"
  then show "process_schedule outcome d s = (d, Some e)"
    by (simp add: process_schedule_def)
next
  define S where "S = PyList (map (\<lambda>(st, en, mode, rate). mk_entry st en mode rate) qs)"
  assume a: "qs \<noteq> [] \<and> list_all (\<lambda>(st, en, mode, rate). (py_eq_int mode 1 \<or> py_eq_int mode 2) \<and> \<not> rate_rejected rate) qs"
  then have v: "validate_schedule_locally S = Inr (True, [])"
    by (simp add: validate_schedule_locally_def local_entries_ok S_def)
  then have p: "process_schedule c d S = store_schedule c (d\<lparr>current_schedule := Some S\<rparr>) S"
    for c
    by (simp add: process_schedule_def)
  show "current_schedule (fst (process_schedule outcome d (PyList (map (\<lambda>(st, en, mode, rate). mk_entry st en mode rate) qs))))
        = Some (PyList (map (\<lambda>(st, en, mode, rate). mk_entry st en mode rate) qs))"
    using p [of outcome] unfolding S_def [symmetric]
    by (simp add: store_schedule_keeps)
  assume f: "format_value (PyList (map (\<lambda>(st, en, mode, rate). mk_entry st en mode rate) qs)) = None"
  then have f': "format_value S = None" by (simp add: S_def)
  show "snd (process_schedule Commits d (PyList (map (\<lambda>(st, en, mode, rate). mk_entry st en mode rate) qs))) = None"
    using p [of Commits] stored_active_store(1) [OF f'] unfolding S_def [symmetric]
    by simp
  show "stored_active (fst (process_schedule Commits d (PyList (map (\<lambda>(st, en, mode, rate). mk_entry st en mode rate) qs))))
                = [PyList (map (\<lambda>(st, en, mode, rate). mk_entry st en mode rate) qs)]"
    using p [of Commits] stored_active_store(2) [OF f'] unfolding S_def [symmetric]
    by simp
qed

theorem local_validation_ignores_time_witness:
  "validate_schedule_locally (PyList []) = Inr (False, [LocalEmpty])
   \<and> process_schedule Commits \<lparr>device_id = ''RPI-001'', current_schedule = None, schedules = []\<rparr> (PyList [])
     = (\<lparr>device_id = ''RPI-001'', current_schedule = None, schedules = []\<rparr>, None)
   \<and> validate_schedule_locally
        (PyList [mk_entry (PyStr ''2025-12-25T00:00:00Z'') (PyStr ''2025-12-25T00:30:00Z'')
           (PyInt (10 ^ 5000)) (PyInt 100)]) = Inl ValueError
   \<and> process_schedule Commits \<lparr>device_id = ''RPI-001'', current_schedule = None, schedules = []\<rparr>
        (PyList [mk_entry (PyStr ''2025-12-25T00:00:00Z'') (PyStr ''2025-12-25T00:30:00Z'')
           (PyInt (10 ^ 5000)) (PyInt 100)])
     = (\<lparr>device_id = ''RPI-001'', current_schedule = None, schedules = []\<rparr>, Some ValueError)
   \<and> [(PyStr ''tomorrow'', PyNone, PyInt 1, PyFloat (FNum 99.5))] \<noteq> []
   \<and> list_all (\<lambda>(st, en, mode, rate). (py_eq_int mode 1 \<or> py_eq_int mode 2) \<and> \<not> rate_rejected rate)
        [(PyStr ''tomorrow'', PyNone, PyInt 1, PyFloat (FNum 99.5))]
   \<and> format_value (PyList (map (\<lambda>(st, en, mode, rate). mk_entry st en mode rate) [(PyStr ''tomorrow'', PyNone, PyInt 1, PyFloat (FNum 99.5))])) = None
   \<and> current_schedule (fst (process_schedule Commits \<lparr>device_id = ''RPI-001'', current_schedule = None, schedules = []\<rparr>
              (PyList (map (\<lambda>(st, en, mode, rate). mk_entry st en mode rate) [(PyStr ''tomorrow'', PyNone, PyInt 1, PyFloat (FNum 99.5))]))))
       = Some (PyList (map (\<lambda>(st, en, mode, rate). mk_entry st en mode rate) [(PyStr ''tomorrow'', PyNone, PyInt 1, PyFloat (FNum 99.5))]))
   \<and> snd (process_schedule Commits \<lparr>device_id = ''RPI-001'', current_schedule = None, schedules = []\<rparr>
              (PyList (map (\<lambda>(st, en, mode, rate). mk_entry st en mode rate) [(PyStr ''tomorrow'', PyNone, PyInt 1, PyFloat (FNum 99.5))]))) = None
   \<and> stored_active (fst (process_schedule Commits \<lparr>device_id = ''RPI-001'', current_schedule = None, schedules = []\<rparr>
              (PyList (map (\<lambda>(st, en, mode, rate). mk_entry st en mode rate) [(PyStr ''tomorrow'', PyNone, PyInt 1, PyFloat (FNum 99.5))]))))
       = [PyList (map (\<lambda>(st, en, mode, rate). mk_entry st en mode rate) [(PyStr ''tomorrow'', PyNone, PyInt 1, PyFloat (FNum 99.5))])]"
proof -
  have h1: "validate_schedule_locally (PyList []) = Inr (False, [LocalEmpty])"
    by (simp add: validate_schedule_locally_def)
  have h2: "validate_schedule_locally
        (PyList [mk_entry (PyStr ''2025-12-25T00:00:00Z'') (PyStr ''2025-12-25T00:30:00Z'')
           (PyInt (10 ^ 5000)) (PyInt 100)]) = Inl ValueError"
    by (rule local_bad_mode_raises) (rule int_too_long_huge)
  have h3: "[(PyStr ''tomorrow'', PyNone, PyInt 1, PyFloat (FNum 99.5))] \<noteq> []
    \<and> list_all (\<lambda>(st, en, mode, rate). (py_eq_int mode 1 \<or> py_eq_int mode 2) \<and> \<not> rate_rejected rate)
        [(PyStr ''tomorrow'', PyNone, PyInt 1, PyFloat (FNum 99.5))]"
    by simp
  have h4: "format_value (PyList (map (\<lambda>(st, en, mode, rate). mk_entry st en mode rate) [(PyStr ''tomorrow'', PyNone, PyInt 1, PyFloat (FNum 99.5))])) = None"
    by code_simp
  from local_validation_ignores_time [where s = "PyList []" and errs = "[LocalEmpty]"
      and outcome = Commits and d = "\<lparr>device_id = ''RPI-001'', current_schedule = None, schedules = []\<rparr>"
      and qs = "[(PyStr ''tomorrow'', PyNone, PyInt 1, PyFloat (FNum 99.5))]"]
    local_validation_ignores_time [where s = "(PyList [mk_entry (PyStr ''2025-12-25T00:00:00Z'') (PyStr ''2025-12-25T00:30:00Z'')
           (PyInt (10 ^ 5000)) (PyInt 100)])"
      and e = ValueError and outcome = Commits and d = "\<lparr>device_id = ''RPI-001'', current_schedule = None, schedules = []\<rparr>"
      and qs = "[(PyStr ''tomorrow'', PyNone, PyInt 1, PyFloat (FNum 99.5))]"]
    h1 h2 h3 h4
  show ?thesis by blast
qed

section \<open>A valid entry and a cleaned schedule\<close>

lemma validate_timestamps_ok:
  assumes "parse_timestamp st = Inr sd" "parse_timestamp en = Inr ed"
    and "dt_lt sd ed = Inr True" "dt_sub ed sd = Inr delta"
    and "60000000 \<le> delta" "delta \<le> 86400000000"
  shows "validate_timestamps st en p = Inr (True, None)"
proof -
  from assms(3) have c: "aware sd = aware ed" "instant sd < instant ed"
    by (auto simp: dt_lt_def split: if_splits)
  then have ge: "dt_ge sd ed = Inr False"
    by (simp add: dt_ge_def)
  have "\<not> real_of_int delta / 1000000 / 60 < 1"
    using assms(5) by simp
  moreover have "\<not> real_of_int delta / 1000000 / 60 / 60 > 24"
    using assms(6) by simp
  ultimately show ?thesis
    using assms(1,2,4) ge
    by (simp add: validate_timestamps_def MIN_INTERVAL_MINUTES_def MAX_INTERVAL_HOURS_def)
qed

lemma validate_mode_ok:
  "mode = PyInt 1 \<or> mode = PyInt 2 \<Longrightarrow> validate_mode default_validator mode p = Inr (True, None)"
  by (auto simp: validate_mode_def default_validator_def ScheduleValidator_def VALID_MODES_def)

lemma validate_rate_ok:
  "py_float F rate = Inr (FNum r) \<Longrightarrow> 0 \<le> r \<Longrightarrow> r \<le> 1000 \<Longrightarrow>
   validate_rate F default_validator rate p = Inr (True, None)"
  by (simp add: validate_rate_def default_validator_def ScheduleValidator_def
      MIN_RATE_KW_def MAX_RATE_KW_def)

text \<open>
  Claim C7. An entry that has the four fields, whose timestamps parse to a start before
  the end with a duration between one minute and 24 hours, whose mode is 1 or 2 and whose
  rate converts to a float in [0, 1000], makes a one-element schedule that
  \<open>validate_schedule\<close> accepts with an empty error list.
\<close>

theorem single_valid_entry_accepted:
  assumes "map_of kvs ''start_time'' = Some st" "map_of kvs ''end_time'' = Some en"
    and "map_of kvs ''mode'' = Some mode" "map_of kvs ''rate_kw'' = Some rate"
    and "parse_timestamp st = Inr sd" "parse_timestamp en = Inr ed"
    and "dt_lt sd ed = Inr True"
    and "dt_sub ed sd = Inr delta" "60 * 1000000 \<le> delta" "delta \<le> 24 * 3600 * 1000000"
    and "mode = PyInt 1 \<or> mode = PyInt 2"
    and "py_float F rate = Inr (FNum r)" "0 \<le> r" "r \<le> 1000"
  shows "validate_schedule F default_validator (PyList [PyDict kvs]) dev = Inr (True, [])"
proof -
  have ts: "validate_timestamps st en (Some 0) = Inr (True, None)"
    using assms(5-10) by (intro validate_timestamps_ok) auto
  have entry: "validate_schedule_entry F default_validator (PyDict kvs) (Some 0)
      = Inr (True, None)"
    using assms(1-4) ts validate_mode_ok [OF assms(11)] validate_rate_ok [OF assms(12-14)]
    by (simp add: validate_schedule_entry_def required_fields_def dict_get_def)
  have loop: "validate_entries F default_validator 0 [PyDict kvs] [] [] = Inr ([], [(sd, ed, 0)])"
    using entry assms(1,2,5,6) by (simp add: entry_times_def)
  have "check_overlaps [(sd, ed, 0)] p = Inr []" "check_sequential [(sd, ed, 0)] p = Inr []" for p
    by (simp_all add: check_overlaps_def check_sequential_def sorted_by_start_def)
  with loop show ?thesis
    by (simp add: validate_schedule_def)
qed

theorem single_valid_entry_accepted_witness:
  "validate_schedule (\<lambda>s. None) default_validator
     (PyList [PyDict [(''start_time'', PyStr ''2025-12-25T00:00:00Z''),
                      (''end_time'', PyStr ''2025-12-25T00:30:00Z''),
                      (''mode'', PyInt 1), (''rate_kw'', PyInt 100)]]) None
   = Inr (True, [])"
proof (rule single_valid_entry_accepted)
  show "map_of [(''start_time'', PyStr ''2025-12-25T00:00:00Z''),
                      (''end_time'', PyStr ''2025-12-25T00:30:00Z''),
                      (''mode'', PyInt 1), (''rate_kw'', PyInt 100)] ''start_time''
        = Some (PyStr ''2025-12-25T00:00:00Z'')"
    by simp
  show "map_of [(''start_time'', PyStr ''2025-12-25T00:00:00Z''),
                      (''end_time'', PyStr ''2025-12-25T00:30:00Z''),
                      (''mode'', PyInt 1), (''rate_kw'', PyInt 100)] ''end_time''
        = Some (PyStr ''2025-12-25T00:30:00Z'')"
    by simp
  show "map_of [(''start_time'', PyStr ''2025-12-25T00:00:00Z''),
                      (''end_time'', PyStr ''2025-12-25T00:30:00Z''),
                      (''mode'', PyInt 1), (''rate_kw'', PyInt 100)] ''mode''
        = Some (PyInt 1)"
    by simp
  show "map_of [(''start_time'', PyStr ''2025-12-25T00:00:00Z''),
                      (''end_time'', PyStr ''2025-12-25T00:30:00Z''),
                      (''mode'', PyInt 1), (''rate_kw'', PyInt 100)] ''rate_kw''
        = Some (PyInt 100)"
    by simp
  show "parse_timestamp (PyStr ''2025-12-25T00:00:00Z'') = Inr (Datetime 2025 12 25 0 0 0 0 None)"
    by code_simp
  show "parse_timestamp (PyStr ''2025-12-25T00:30:00Z'') = Inr (Datetime 2025 12 25 0 30 0 0 None)"
    by code_simp
  show "dt_lt (Datetime 2025 12 25 0 0 0 0 None) (Datetime 2025 12 25 0 30 0 0 None) = Inr True"
    by code_simp
  show "dt_sub (Datetime 2025 12 25 0 30 0 0 None) (Datetime 2025 12 25 0 0 0 0 None)
        = Inr 1800000000"
    by code_simp
  show "60 * 1000000 \<le> (1800000000 :: int)" by simp
  show "(1800000000 :: int) \<le> 24 * 3600 * 1000000" by simp
  show "PyInt 1 = PyInt 1 \<or> PyInt 1 = PyInt 2" by simp
  show "py_float (\<lambda>s. None) (PyInt 100) = Inr (FNum 100)" by simp
  show "(0 :: real) \<le> 100" by simp
  show "(100 :: real) \<le> 1000" by simp
qed

section \<open>Cleaning a schedule\<close>

lemma validate_timestamps_index:
  "validate_timestamps s e i = Inr (True, x) \<Longrightarrow> validate_timestamps s e j = Inr (True, None)"
  by (auto simp: validate_timestamps_def except_ValueError_def and_then_def Let_def
      split: sum.splits if_splits prod.splits)

lemma validate_mode_index:
  "validate_mode v m i = Inr (True, x) \<Longrightarrow> validate_mode v m j = Inr (True, None)"
  by (auto simp: validate_mode_def and_then_Inr_iff split: option.splits if_splits)

lemma validate_rate_index:
  "validate_rate F v r i = Inr (True, x) \<Longrightarrow> validate_rate F v r j = Inr (True, None)"
  by (auto simp: validate_rate_def split: sum.splits if_splits)

lemma validate_schedule_entry_index:
  assumes "validate_schedule_entry F v e i = Inr (True, x)"
  shows "validate_schedule_entry F v e j = Inr (True, None)"
proof -
  from assms obtain kvs where e: "e = PyDict kvs"
    by (cases e) (auto simp: validate_schedule_entry_def)
  from assms e have f: "find (\<lambda>field. map_of kvs field = None) required_fields = None"
    by (auto simp: validate_schedule_entry_def split: option.splits)
  from assms e f obtain y where
    t: "validate_timestamps (dict_get kvs ''start_time'') (dict_get kvs ''end_time'') i
        = Inr (True, y)"
    by (auto simp: validate_schedule_entry_def and_then_Inr_iff split: if_splits)
  from assms e f t obtain z where m: "validate_mode v (dict_get kvs ''mode'') i = Inr (True, z)"
    by (auto simp: validate_schedule_entry_def and_then_Inr_iff split: if_splits)
  from assms e f t m obtain u where
    r: "validate_rate F v (dict_get kvs ''rate_kw'') i = Inr (True, u)"
    by (auto simp: validate_schedule_entry_def and_then_Inr_iff split: if_splits)
  show ?thesis
    using e f validate_timestamps_index [OF t, of j] validate_mode_index [OF m, of j]
      validate_rate_index [OF r, of j]
    by (simp add: validate_schedule_entry_def)
qed

lemma clean_entries_kept:
  "clean_entries F v i es c w = Inr (c', w') \<Longrightarrow>
   \<exists>kept. c' = c @ kept
     \<and> (\<forall>e \<in> set kept. \<forall>j. validate_schedule_entry F v e j = Inr (True, None))"
proof (induction es arbitrary: i c w)
  case Nil
  then show ?case by simp
next
  case (Cons e es)
  from Cons.prems obtain valid error where
    ve: "validate_schedule_entry F v e (Some i) = Inr (valid, error)"
    by (auto simp: and_then_Inr_iff)
  show ?case
  proof (cases valid)
    case True
    with ve have all: "\<forall>j. validate_schedule_entry F v e j = Inr (True, None)"
      by (auto dest: validate_schedule_entry_index)
    from Cons.prems ve True
    have "clean_entries F v (Suc i) es (c @ [e]) w = Inr (c', w')" by simp
    from Cons.IH [OF this] obtain kept where
      "c' = (c @ [e]) @ kept"
      "\<forall>e \<in> set kept. \<forall>j. validate_schedule_entry F v e j = Inr (True, None)"
      by blast
    with all have "c' = c @ (e # kept)
      \<and> (\<forall>e \<in> set (e # kept). \<forall>j. validate_schedule_entry F v e j = Inr (True, None))"
      by simp
    then show ?thesis by blast
  next
    case False
    with Cons.prems ve
    have "clean_entries F v (Suc i) es c (w @ [EntryInvalid i (message error)]) = Inr (c', w')"
      by simp
    from Cons.IH [OF this] show ?thesis .
  qed
qed

lemma clean_entries_all_valid:
  "\<forall>e \<in> set es. \<forall>j. validate_schedule_entry F v e j = Inr (True, None) \<Longrightarrow>
   clean_entries F v i es c w = Inr (c @ es, w)"
  by (induction es arbitrary: i c) auto

text \<open>
  Claim C8. When \<open>clean_schedule\<close> returns a cleaned list, every entry of that list
  passes \<open>validate_schedule_entry\<close> (under any index), and \<open>clean_schedule\<close> applied to
  the cleaned list returns the same list as its cleaned component: no further entry is
  dropped. The warnings of the second call may still hold errors of the schedule as a
  whole.
\<close>

theorem clean_schedule_fixed_point:
  assumes "clean_schedule F v schedule dev = Inr (cleaned, warnings)"
  shows "(\<forall>e \<in> set cleaned. \<forall>j. validate_schedule_entry F v e j = Inr (True, None))
    \<and> (\<exists>warnings'. clean_schedule F v cleaned dev = Inr (cleaned, warnings'))"
proof -
  from assms obtain c w where
    loop: "clean_entries F v 0 schedule [] [] = Inr (c, w)"
    and rest: "(if c \<noteq> [] then
         and_then (validate_schedule F v (PyList c) dev) (\<lambda>(valid, errors).
           if \<not> valid then Inr (c, w @ errors) else Inr (c, w))
       else Inr (c, w)) = Inr (cleaned, warnings)"
    by (auto simp: clean_schedule_def and_then_Inr_iff)
  have c: "c = cleaned"
    using rest by (auto simp: and_then_Inr_iff split: if_splits)
  from clean_entries_kept [OF loop] c
  have valid: "\<forall>e \<in> set cleaned. \<forall>j. validate_schedule_entry F v e j = Inr (True, None)"
    by auto
  then have again: "clean_entries F v 0 cleaned [] [] = Inr (cleaned, [])"
    using clean_entries_all_valid [of cleaned F v 0 "[]" "[]"] by simp
  have "\<exists>warnings'. clean_schedule F v cleaned dev = Inr (cleaned, warnings')"
  proof (cases "cleaned = []")
    case True
    with again show ?thesis by (simp add: clean_schedule_def)
  next
    case False
    with rest c obtain ok errors where
      "validate_schedule F v (PyList cleaned) dev = Inr (ok, errors)"
      by (auto simp: and_then_Inr_iff)
    with again False show ?thesis
      by (simp add: clean_schedule_def)
  qed
  with valid show ?thesis by blast
qed

theorem clean_schedule_fixed_point_witness:
  "clean_schedule (\<lambda>s. None) default_validator
     [mk_entry (PyStr ''2025-12-25T00:00:00Z'') (PyStr ''2025-12-25T00:30:00Z'')
        (PyInt 1) (PyInt 100),
      mk_entry (PyStr ''2025-12-25T00:30:00Z'') (PyStr ''2025-12-25T01:00:00Z'')
        (PyInt 3) (PyInt 50),
      mk_entry (PyStr ''2025-12-25T00:15:00Z'') (PyStr ''2025-12-25T00:45:00Z'')
        (PyInt 2) (PyInt 50)] None
   = Inr ([mk_entry (PyStr ''2025-12-25T00:00:00Z'') (PyStr ''2025-12-25T00:30:00Z'')
        (PyInt 1) (PyInt 100),
      mk_entry (PyStr ''2025-12-25T00:15:00Z'') (PyStr ''2025-12-25T00:45:00Z'')
        (PyInt 2) (PyInt 50)],
      [EntryInvalid 1 (ModeNotOneOf (Some 1) [1, 2] 3),
       Overlap None 0 1 (Datetime 2025 12 25 0 30 0 0 None) (Datetime 2025 12 25 0 15 0 0 None),
       OverlapAdvisory None 0 1 900000000])
   \<and> (\<exists>warnings'. clean_schedule (\<lambda>s. None) default_validator
     [mk_entry (PyStr ''2025-12-25T00:00:00Z'') (PyStr ''2025-12-25T00:30:00Z'')
        (PyInt 1) (PyInt 100),
      mk_entry (PyStr ''2025-12-25T00:15:00Z'') (PyStr ''2025-12-25T00:45:00Z'')
        (PyInt 2) (PyInt 50)] None
   = Inr ([mk_entry (PyStr ''2025-12-25T00:00:00Z'') (PyStr ''2025-12-25T00:30:00Z'')
        (PyInt 1) (PyInt 100),
      mk_entry (PyStr ''2025-12-25T00:15:00Z'') (PyStr ''2025-12-25T00:45:00Z'')
        (PyInt 2) (PyInt 50)], warnings'))"
proof -
  have h: "clean_schedule (\<lambda>s. None) default_validator
     [mk_entry (PyStr ''2025-12-25T00:00:00Z'') (PyStr ''2025-12-25T00:30:00Z'')
        (PyInt 1) (PyInt 100),
      mk_entry (PyStr ''2025-12-25T00:30:00Z'') (PyStr ''2025-12-25T01:00:00Z'')
        (PyInt 3) (PyInt 50),
      mk_entry (PyStr ''2025-12-25T00:15:00Z'') (PyStr ''2025-12-25T00:45:00Z'')
        (PyInt 2) (PyInt 50)] None
   = Inr ([mk_entry (PyStr ''2025-12-25T00:00:00Z'') (PyStr ''2025-12-25T00:30:00Z'')
        (PyInt 1) (PyInt 100),
      mk_entry (PyStr ''2025-12-25T00:15:00Z'') (PyStr ''2025-12-25T00:45:00Z'')
        (PyInt 2) (PyInt 50)],
      [EntryInvalid 1 (ModeNotOneOf (Some 1) [1, 2] 3),
       Overlap None 0 1 (Datetime 2025 12 25 0 30 0 0 None) (Datetime 2025 12 25 0 15 0 0 None),
       OverlapAdvisory None 0 1 900000000])"
    by code_simp
  from clean_schedule_fixed_point [OF h] h show ?thesis by blast
qed

section \<open>Overlapping entries\<close>

lemma valid_entry_times:
  assumes "validate_schedule_entry F v e i = Inr (True, x)"
  shows "\<exists>s t. entry_times e = Inr (s, t) \<and> aware s = aware t \<and> instant s < instant t"
proof -
  from assms obtain kvs where e: "e = PyDict kvs"
    by (cases e) (auto simp: validate_schedule_entry_def)
  from assms e have f: "find (\<lambda>field. map_of kvs field = None) required_fields = None"
    by (auto simp: validate_schedule_entry_def split: option.splits)
  then obtain st en where g: "map_of kvs ''start_time'' = Some st" "map_of kvs ''end_time'' = Some en"
    by (auto simp: required_fields_def split: if_splits)
  from assms e f obtain y where
    t: "validate_timestamps (dict_get kvs ''start_time'') (dict_get kvs ''end_time'') i
        = Inr (True, y)"
    by (auto simp: validate_schedule_entry_def and_then_Inr_iff split: if_splits)
  with g have "validate_timestamps st en i = Inr (True, y)"
    by (simp add: dict_get_def)
  then obtain s t where "parse_timestamp st = Inr s" "parse_timestamp en = Inr t"
    "dt_ge s t = Inr False"
    by (auto simp: validate_timestamps_def except_ValueError_def and_then_def Let_def
      split: sum.splits if_splits prod.splits)
  with e g show ?thesis
    by (auto simp: entry_times_def dt_ge_def split: if_splits)
qed

lemma validate_entries_all_valid:
  "(\<And>k. k < length es \<Longrightarrow>
      validate_schedule_entry F v (es ! k) (Some (i + k)) = Inr (True, None)
      \<and> entry_times (es ! k) = Inr (S (i + k), E (i + k))) \<Longrightarrow>
   validate_entries F v i es errors parsed
   = Inr (errors, parsed @ map (\<lambda>k. (S (i + k), E (i + k), i + k)) [0..<length es])"
proof (induction es arbitrary: i parsed)
  case Nil
  then show ?case by simp
next
  case (Cons e es)
  from Cons.prems [of 0] have e: "validate_schedule_entry F v e (Some i) = Inr (True, None)"
    "entry_times e = Inr (S i, E i)"
    by auto
  have "validate_entries F v (Suc i) es errors (parsed @ [(S i, E i, i)])
    = Inr (errors, (parsed @ [(S i, E i, i)])
        @ map (\<lambda>k. (S (Suc i + k), E (Suc i + k), Suc i + k)) [0..<length es])"
  proof (rule Cons.IH)
    fix k assume "k < length es"
    with Cons.prems [of "Suc k"]
    show "validate_schedule_entry F v (es ! k) (Some (Suc i + k)) = Inr (True, None)
      \<and> entry_times (es ! k) = Inr (S (Suc i + k), E (Suc i + k))"
      by simp
  qed
  moreover have "map (\<lambda>k. (S (i + k), E (i + k), i + k)) [0..<length (e # es)]
    = (S i, E i, i) # map (\<lambda>k. (S (Suc i + k), E (Suc i + k), Suc i + k)) [0..<length es]"
    by (simp add: upt_conv_Cons map_Suc_upt [symmetric] del: upt_Suc)
  ultimately show ?case using e by simp
qed

text \<open>The two sweeps on a list whose timestamps are all naive or all aware.\<close>

lemma overlap_sweep_complete:
  "(\<And>x. x \<in> set xs \<Longrightarrow> aware (fst x) = u \<and> aware (fst (snd x)) = u) \<Longrightarrow>
   \<exists>errs. overlap_sweep p xs = Inr errs
     \<and> (\<forall>k. Suc k < length xs \<and> instant (fst (xs ! Suc k)) < instant (fst (snd (xs ! k))) \<longrightarrow>
           Overlap p (snd (snd (xs ! k))) (snd (snd (xs ! Suc k))) (fst (snd (xs ! k)))
             (fst (xs ! Suc k)) \<in> set errs)"
proof (induction p xs rule: overlap_sweep.induct)
  case (1 p a b rest)
  have "\<And>x. x \<in> set (b # rest) \<Longrightarrow> aware (fst x) = u \<and> aware (fst (snd x)) = u"
    using "1.prems" by simp
  from "1.IH" [OF this]
  obtain errs where errs: "overlap_sweep p (b # rest) = Inr errs"
    "\<forall>k. Suc k < length (b # rest)
        \<and> instant (fst ((b # rest) ! Suc k)) < instant (fst (snd ((b # rest) ! k))) \<longrightarrow>
           Overlap p (snd (snd ((b # rest) ! k))) (snd (snd ((b # rest) ! Suc k)))
             (fst (snd ((b # rest) ! k))) (fst ((b # rest) ! Suc k)) \<in> set errs"
    by (auto simp: dt_gt_def)
  have gt: "dt_gt (fst (snd a)) (fst b) = Inr (instant (fst b) < instant (fst (snd a)))"
    using "1.prems" by (simp add: dt_gt_def)
  let ?errs = "(if instant (fst b) < instant (fst (snd a))
       then [Overlap p (snd (snd a)) (snd (snd b)) (fst (snd a)) (fst b)] else []) @ errs"
  have "overlap_sweep p (a # b # rest) = Inr ?errs"
    using gt errs(1) by simp
  moreover have "\<forall>k. Suc k < length (a # b # rest)
        \<and> instant (fst ((a # b # rest) ! Suc k)) < instant (fst (snd ((a # b # rest) ! k))) \<longrightarrow>
           Overlap p (snd (snd ((a # b # rest) ! k))) (snd (snd ((a # b # rest) ! Suc k)))
             (fst (snd ((a # b # rest) ! k))) (fst ((a # b # rest) ! Suc k)) \<in> set ?errs"
  proof (intro allI impI)
    fix k
    assume k: "Suc k < length (a # b # rest)
        \<and> instant (fst ((a # b # rest) ! Suc k)) < instant (fst (snd ((a # b # rest) ! k)))"
    show "Overlap p (snd (snd ((a # b # rest) ! k))) (snd (snd ((a # b # rest) ! Suc k)))
             (fst (snd ((a # b # rest) ! k))) (fst ((a # b # rest) ! Suc k)) \<in> set ?errs"
    proof (cases k)
      case 0
      with k show ?thesis by simp
    next
      case (Suc k')
      with k errs(2) [rule_format, of k'] show ?thesis by simp
    qed
  qed
  ultimately show ?case by blast
qed simp_all

lemma sequential_sweep_total:
  "(\<And>x. x \<in> set xs \<Longrightarrow> aware (fst x) = u \<and> aware (fst (snd x)) = u) \<Longrightarrow>
   \<exists>warnings. sequential_sweep p xs = Inr warnings"
proof (induction p xs rule: sequential_sweep.induct)
  case (1 p a b rest)
  have "\<And>x. x \<in> set (b # rest) \<Longrightarrow> aware (fst x) = u \<and> aware (fst (snd x)) = u"
    using "1.prems" by simp
  then obtain ws where ws: "sequential_sweep p (b # rest) = Inr ws"
    using "1.IH" by blast
  have "aware (fst (snd a)) = aware (fst b)"
    using "1.prems" by simp
  then show ?case
    using ws by (simp add: dt_sub_def)
qed simp_all

lemma sweep_finds_overlap:
  assumes sorted: "sorted (map (\<lambda>x. instant (fst x)) xs)"
    and uniform: "\<And>x. x \<in> set xs \<Longrightarrow> aware (fst x) = u \<and> aware (fst (snd x)) = u"
    and proper: "\<And>x. x \<in> set xs \<Longrightarrow> instant (fst x) < instant (fst (snd x))"
    and pq: "p < q" "q < length xs"
    and over: "instant (fst (xs ! q)) < instant (fst (snd (xs ! p)))"
  shows "\<exists>errs. overlap_sweep pre xs = Inr errs
    \<and> Overlap pre (snd (snd (xs ! p))) (snd (snd (xs ! Suc p))) (fst (snd (xs ! p)))
        (fst (xs ! Suc p)) \<in> set errs
    \<and> Suc p < length xs
    \<and> instant (fst (xs ! p)) < instant (fst (snd (xs ! Suc p)))
    \<and> instant (fst (xs ! Suc p)) < instant (fst (snd (xs ! p)))"
proof -
  from pq have sp: "Suc p < length xs" "Suc p \<le> q" by auto
  have "map (\<lambda>x. instant (fst x)) xs ! Suc p \<le> map (\<lambda>x. instant (fst x)) xs ! q"
    using sorted sp pq by (intro sorted_nth_mono) auto
  then have le1: "instant (fst (xs ! Suc p)) \<le> instant (fst (xs ! q))"
    using sp pq by simp
  have "map (\<lambda>x. instant (fst x)) xs ! p \<le> map (\<lambda>x. instant (fst x)) xs ! Suc p"
    using sorted sp by (intro sorted_nth_mono) auto
  then have le2: "instant (fst (xs ! p)) \<le> instant (fst (xs ! Suc p))"
    using sp by simp
  have "instant (fst (xs ! Suc p)) < instant (fst (snd (xs ! Suc p)))"
    using proper [of "xs ! Suc p"] sp by simp
  with le2 have a: "instant (fst (xs ! p)) < instant (fst (snd (xs ! Suc p)))" by simp
  from le1 over have b: "instant (fst (xs ! Suc p)) < instant (fst (snd (xs ! p)))" by simp
  from overlap_sweep_complete [of xs u pre] uniform obtain errs where
    errs: "overlap_sweep pre xs = Inr errs"
    "\<forall>k. Suc k < length xs \<and> instant (fst (xs ! Suc k)) < instant (fst (snd (xs ! k))) \<longrightarrow>
           Overlap pre (snd (snd (xs ! k))) (snd (snd (xs ! Suc k))) (fst (snd (xs ! k)))
             (fst (xs ! Suc k)) \<in> set errs"
    by blast
  from errs(2) sp(1) b have "Overlap pre (snd (snd (xs ! p))) (snd (snd (xs ! Suc p)))
      (fst (snd (xs ! p))) (fst (xs ! Suc p)) \<in> set errs"
    by blast
  with errs(1) sp(1) a b show ?thesis by blast
qed

lemma sorted_by_start_uniform:
  "(\<And>x. x \<in> set xs \<Longrightarrow> aware (fst x) = u) \<Longrightarrow>
   sorted_by_start xs = Inr (sort_key (\<lambda>x. instant (fst x)) xs)"
  by (cases xs) (auto simp: sorted_by_start_def list_all_iff)

text \<open>
  The sweep over the sorted list. Take a schedule whose entries all pass the per-entry
  checks, with parsed times \<open>S k\<close> to \<open>E k\<close> for entry \<open>k\<close>, all naive or all
  aware. If two of its entries overlap, then \<open>validate_schedule\<close> returns \<open>False\<close> with
  an error list that holds an overlap error naming the indices, in the input list, of two
  entries that overlap. The list is arbitrary, so this holds for every order of the
  entries: the sweep over adjacent pairs of the sorted list finds an overlap whenever there
  is one.
\<close>

lemma uniform_overlap_rejected:
  fixes S E :: "nat \<Rightarrow> datetime"
  assumes valid: "\<And>k. k < length entries \<Longrightarrow>
        validate_schedule_entry F v (entries ! k) (Some k) = Inr (True, None)"
    and times: "\<And>k. k < length entries \<Longrightarrow> entry_times (entries ! k) = Inr (S k, E k)"
    and uniform: "\<And>k. k < length entries \<Longrightarrow> aware (S k) = u"
    and ab: "a < length entries" "b < length entries" "a \<noteq> b"
    and overlap: "instant (S a) < instant (E b)" "instant (S b) < instant (E a)"
  shows "\<exists>errors i j. validate_schedule F v (PyList entries) dev = Inr (False, errors)
     \<and> Overlap (device_prefix dev) i j (E i) (S j) \<in> set errors
     \<and> i < length entries \<and> j < length entries \<and> i \<noteq> j
     \<and> instant (S i) < instant (E j) \<and> instant (S j) < instant (E i)"
proof -
  define n where "n = length entries"
  define parsed :: "ptime list" where "parsed = map (\<lambda>k. (S k, E k, k)) [0..<n]"
  define xs where "xs = sort_key (\<lambda>x. instant (fst x)) parsed"
  define pre where "pre = device_prefix dev"
  have loop: "validate_entries F v 0 entries [] [] = Inr ([], parsed)"
    using validate_entries_all_valid [of entries F v 0 S E "[]" "[]"] valid times
    by (simp add: parsed_def n_def)
  have proper_k: "aware (S k) = aware (E k) \<and> instant (S k) < instant (E k)" if "k < n" for k
  proof -
    from that have k: "k < length entries" by (simp add: n_def)
    from valid_entry_times [OF valid [OF k]] times [OF k] show ?thesis by auto
  qed
  have in_parsed: "x \<in> set parsed \<longleftrightarrow> (\<exists>k<n. x = (S k, E k, k))" for x
    by (auto simp: parsed_def)
  have set_xs: "set xs = set parsed" by (simp add: xs_def)
  have len: "length xs = n" by (simp add: xs_def parsed_def)
  have uni: "aware (fst x) = u \<and> aware (fst (snd x)) = u" if "x \<in> set xs" for x
  proof -
    from that obtain k where k: "k < n" "x = (S k, E k, k)"
      unfolding set_xs in_parsed by blast
    with uniform [of k] proper_k [of k] show ?thesis by (simp add: n_def)
  qed
  have proper: "instant (fst x) < instant (fst (snd x))" if "x \<in> set xs" for x
  proof -
    from that obtain k where k: "k < n" "x = (S k, E k, k)"
      unfolding set_xs in_parsed by blast
    with proper_k [of k] show ?thesis by simp
  qed
  have srt: "sorted (map (\<lambda>x. instant (fst x)) xs)"
    unfolding xs_def by (rule sorted_sort_key)
  have "distinct (map (\<lambda>x. snd (snd x)) parsed)"
    by (simp add: parsed_def comp_def)
  then have "distinct parsed" by (rule distinct_map [THEN iffD1, THEN conjunct1])
  then have dist: "distinct xs" by (simp add: xs_def)
  have sorted_times: "sorted_by_start parsed = Inr xs"
    unfolding xs_def
  proof (rule sorted_by_start_uniform)
    fix x assume "x \<in> set parsed"
    then show "aware (fst x) = u" using uni set_xs by blast
  qed
  have "(S a, E a, a) \<in> set xs" "(S b, E b, b) \<in> set xs"
    using ab unfolding set_xs in_parsed n_def by blast+
  then obtain p q where pq: "p < n" "xs ! p = (S a, E a, a)" "q < n" "xs ! q = (S b, E b, b)"
    unfolding in_set_conv_nth len by blast
  with ab(3) have "p \<noteq> q" by auto
  have "\<exists>p' q'. p' < q' \<and> q' < n
      \<and> instant (fst (xs ! q')) < instant (fst (snd (xs ! p')))"
  proof (cases "p < q")
    case True
    with pq overlap(2) have "p < q \<and> q < n \<and> instant (fst (xs ! q)) < instant (fst (snd (xs ! p)))"
      by simp
    then show ?thesis by blast
  next
    case False
    with \<open>p \<noteq> q\<close> have "q < p" by simp
    with pq overlap(1) have "q < p \<and> p < n \<and> instant (fst (xs ! p)) < instant (fst (snd (xs ! q)))"
      by simp
    then show ?thesis by blast
  qed
  then obtain p' q' where p'q': "p' < q'" "q' < length xs"
    "instant (fst (xs ! q')) < instant (fst (snd (xs ! p')))"
    unfolding len by blast
  from sweep_finds_overlap [of xs u p' q' pre, OF srt uni proper p'q']
  obtain errs where errs: "overlap_sweep pre xs = Inr errs"
    "Overlap pre (snd (snd (xs ! p'))) (snd (snd (xs ! Suc p'))) (fst (snd (xs ! p')))
        (fst (xs ! Suc p')) \<in> set errs"
    "Suc p' < length xs"
    "instant (fst (xs ! p')) < instant (fst (snd (xs ! Suc p')))"
    "instant (fst (xs ! Suc p')) < instant (fst (snd (xs ! p')))"
    by blast
  have "xs ! p' \<in> set xs" "xs ! Suc p' \<in> set xs"
    using errs(3) by simp_all
  then obtain i j where ij: "i < n" "xs ! p' = (S i, E i, i)" "j < n" "xs ! Suc p' = (S j, E j, j)"
    unfolding set_xs in_parsed by blast
  have "xs ! p' \<noteq> xs ! Suc p'"
    using dist errs(3) by (simp add: nth_eq_iff_index_eq)
  with ij have neq: "i \<noteq> j" by auto
  from sequential_sweep_total [of xs u pre] uni obtain ws where
    ws: "sequential_sweep pre xs = Inr ws"
    by blast
  have ne: "entries \<noteq> []" using ab(1) by auto
  have errs_ne: "errs \<noteq> []" using errs(2) by auto
  have "check_overlaps parsed pre = Inr errs" "check_sequential parsed pre = Inr ws"
    using sorted_times errs(1) ws by (simp_all add: check_overlaps_def check_sequential_def)
  then have "validate_schedule F v (PyList entries) dev = Inr (False, errs @ ws)"
    using loop ne errs_ne by (simp add: validate_schedule_def pre_def)
  moreover have "Overlap (device_prefix dev) i j (E i) (S j) \<in> set (errs @ ws)"
    using errs(2) ij by (simp add: pre_def)
  moreover have "instant (S i) < instant (E j)" "instant (S j) < instant (E i)"
    using errs(4,5) ij by simp_all
  ultimately show ?thesis using ij(1,3) neq unfolding n_def by blast
qed


lemma uniform_overlap_rejected_example:
  "\<exists>errors i j. validate_schedule (\<lambda>s. None) default_validator
       (PyList
       [mk_entry (PyStr ''2025-12-25T00:15:00Z'') (PyStr ''2025-12-25T00:45:00Z'')
          (PyInt 2) (PyInt 50),
        mk_entry (PyStr ''2025-12-25T00:00:00Z'') (PyStr ''2025-12-25T00:30:00Z'')
          (PyInt 1) (PyInt 100)]) None
     = Inr (False, errors)
     \<and> Overlap (device_prefix None) i j ((\<lambda>k :: nat. if k = 0 then Datetime 2025 12 25 0 45 0 0 None else Datetime 2025 12 25 0 30 0 0 None) i) ((\<lambda>k :: nat. if k = 0 then Datetime 2025 12 25 0 15 0 0 None else Datetime 2025 12 25 0 0 0 0 None) j) \<in> set errors
     \<and> i < length [mk_entry (PyStr ''2025-12-25T00:15:00Z'') (PyStr ''2025-12-25T00:45:00Z'')
          (PyInt 2) (PyInt 50),
        mk_entry (PyStr ''2025-12-25T00:00:00Z'') (PyStr ''2025-12-25T00:30:00Z'')
          (PyInt 1) (PyInt 100)]
     \<and> j < length [mk_entry (PyStr ''2025-12-25T00:15:00Z'') (PyStr ''2025-12-25T00:45:00Z'')
          (PyInt 2) (PyInt 50),
        mk_entry (PyStr ''2025-12-25T00:00:00Z'') (PyStr ''2025-12-25T00:30:00Z'')
          (PyInt 1) (PyInt 100)]
     \<and> i \<noteq> j
     \<and> instant ((\<lambda>k :: nat. if k = 0 then Datetime 2025 12 25 0 15 0 0 None else Datetime 2025 12 25 0 0 0 0 None) i) < instant ((\<lambda>k :: nat. if k = 0 then Datetime 2025 12 25 0 45 0 0 None else Datetime 2025 12 25 0 30 0 0 None) j) \<and> instant ((\<lambda>k :: nat. if k = 0 then Datetime 2025 12 25 0 15 0 0 None else Datetime 2025 12 25 0 0 0 0 None) j) < instant ((\<lambda>k :: nat. if k = 0 then Datetime 2025 12 25 0 45 0 0 None else Datetime 2025 12 25 0 30 0 0 None) i)"
proof (rule uniform_overlap_rejected [where a = 0 and b = 1 and u = False])
  have v0: "validate_schedule_entry (\<lambda>s. None) default_validator (mk_entry (PyStr ''2025-12-25T00:15:00Z'') (PyStr ''2025-12-25T00:45:00Z'')
          (PyInt 2) (PyInt 50)) (Some 0)
      = Inr (True, None)"
    by code_simp
  have v1: "validate_schedule_entry (\<lambda>s. None) default_validator (mk_entry (PyStr ''2025-12-25T00:00:00Z'') (PyStr ''2025-12-25T00:30:00Z'')
          (PyInt 1) (PyInt 100)) (Some 1)
      = Inr (True, None)"
    by code_simp
  have t0: "entry_times (mk_entry (PyStr ''2025-12-25T00:15:00Z'') (PyStr ''2025-12-25T00:45:00Z'')
          (PyInt 2) (PyInt 50))
      = Inr (Datetime 2025 12 25 0 15 0 0 None, Datetime 2025 12 25 0 45 0 0 None)"
    by code_simp
  have t1: "entry_times (mk_entry (PyStr ''2025-12-25T00:00:00Z'') (PyStr ''2025-12-25T00:30:00Z'')
          (PyInt 1) (PyInt 100))
      = Inr (Datetime 2025 12 25 0 0 0 0 None, Datetime 2025 12 25 0 30 0 0 None)"
    by code_simp
  fix k
  assume "k < length [mk_entry (PyStr ''2025-12-25T00:15:00Z'') (PyStr ''2025-12-25T00:45:00Z'')
          (PyInt 2) (PyInt 50),
        mk_entry (PyStr ''2025-12-25T00:00:00Z'') (PyStr ''2025-12-25T00:30:00Z'')
          (PyInt 1) (PyInt 100)]"
  then have k: "k = 0 \<or> k = 1" by auto
  from k v0 v1 show "validate_schedule_entry (\<lambda>s. None) default_validator
      ([mk_entry (PyStr ''2025-12-25T00:15:00Z'') (PyStr ''2025-12-25T00:45:00Z'')
          (PyInt 2) (PyInt 50),
        mk_entry (PyStr ''2025-12-25T00:00:00Z'') (PyStr ''2025-12-25T00:30:00Z'')
          (PyInt 1) (PyInt 100)] ! k) (Some k) = Inr (True, None)"
    by auto
  from k t0 t1 show "entry_times ([mk_entry (PyStr ''2025-12-25T00:15:00Z'') (PyStr ''2025-12-25T00:45:00Z'')
          (PyInt 2) (PyInt 50),
        mk_entry (PyStr ''2025-12-25T00:00:00Z'') (PyStr ''2025-12-25T00:30:00Z'')
          (PyInt 1) (PyInt 100)] ! k) = Inr ((\<lambda>k :: nat. if k = 0 then Datetime 2025 12 25 0 15 0 0 None else Datetime 2025 12 25 0 0 0 0 None) k, (\<lambda>k :: nat. if k = 0 then Datetime 2025 12 25 0 45 0 0 None else Datetime 2025 12 25 0 30 0 0 None) k)"
    by auto
  from k show "aware ((\<lambda>k :: nat. if k = 0 then Datetime 2025 12 25 0 15 0 0 None else Datetime 2025 12 25 0 0 0 0 None) k) = False"
    by (auto simp: aware_def)
next
  show "0 < length [mk_entry (PyStr ''2025-12-25T00:15:00Z'') (PyStr ''2025-12-25T00:45:00Z'')
          (PyInt 2) (PyInt 50),
        mk_entry (PyStr ''2025-12-25T00:00:00Z'') (PyStr ''2025-12-25T00:30:00Z'')
          (PyInt 1) (PyInt 100)]" by simp
  show "1 < length [mk_entry (PyStr ''2025-12-25T00:15:00Z'') (PyStr ''2025-12-25T00:45:00Z'')
          (PyInt 2) (PyInt 50),
        mk_entry (PyStr ''2025-12-25T00:00:00Z'') (PyStr ''2025-12-25T00:30:00Z'')
          (PyInt 1) (PyInt 100)]" by simp
  show "(0 :: nat) \<noteq> 1" by simp
  show "instant ((\<lambda>k :: nat. if k = 0 then Datetime 2025 12 25 0 15 0 0 None else Datetime 2025 12 25 0 0 0 0 None) 0) < instant ((\<lambda>k :: nat. if k = 0 then Datetime 2025 12 25 0 45 0 0 None else Datetime 2025 12 25 0 30 0 0 None) 1)" by code_simp
  show "instant ((\<lambda>k :: nat. if k = 0 then Datetime 2025 12 25 0 15 0 0 None else Datetime 2025 12 25 0 0 0 0 None) 1) < instant ((\<lambda>k :: nat. if k = 0 then Datetime 2025 12 25 0 45 0 0 None else Datetime 2025 12 25 0 30 0 0 None) 0)" by code_simp
qed

text \<open>
  Claim C2. The claim says that every schedule whose entries pass the per-entry checks
  and of which two overlap is rejected, with an overlap error that names two overlapping
  entries. The code does so when the parsed timestamps are all naive or all aware, as
  shown above. When the schedule holds timestamps of both kinds the sort of the parsed
  times compares a naive with an aware datetime and raises \<^verbatim>\<open>TypeError\<close>, which no
  handler catches: below, entries 0 and 1 overlap, each of the three entries passes
  \<open>validate_schedule_entry\<close>, and \<open>validate_schedule\<close> raises instead of returning
  \<open>False\<close> with the overlap.
\<close>

theorem overlap_with_mixed_timestamps_raises:
  "validate_schedule_entry (\<lambda>s. None) default_validator
     (mk_entry (PyStr ''2025-12-25T00:00:00Z'') (PyStr ''2025-12-25T00:30:00Z'')
        (PyInt 1) (PyInt 100)) (Some 0) = Inr (True, None)
   \<and> validate_schedule_entry (\<lambda>s. None) default_validator
     (mk_entry (PyStr ''2025-12-25T00:15:00Z'') (PyStr ''2025-12-25T00:45:00Z'')
        (PyInt 2) (PyInt 50)) (Some 1) = Inr (True, None)
   \<and> validate_schedule_entry (\<lambda>s. None) default_validator
     (mk_entry (PyStr ''2025-12-25T02:00:00+00:00'') (PyStr ''2025-12-25T03:00:00+00:00'')
        (PyInt 1) (PyInt 100)) (Some 2) = Inr (True, None)
   \<and> validate_schedule (\<lambda>s. None) default_validator
     (PyList
        [mk_entry (PyStr ''2025-12-25T00:00:00Z'') (PyStr ''2025-12-25T00:30:00Z'')
           (PyInt 1) (PyInt 100),
         mk_entry (PyStr ''2025-12-25T00:15:00Z'') (PyStr ''2025-12-25T00:45:00Z'')
           (PyInt 2) (PyInt 50),
         mk_entry (PyStr ''2025-12-25T02:00:00+00:00'') (PyStr ''2025-12-25T03:00:00+00:00'')
           (PyInt 1) (PyInt 100)]) None
     = Inl TypeError"
  by code_simp

section \<open>Parsing written timestamps\<close>

lemma digit_cases:
  "0 \<le> a \<Longrightarrow> a < 10 \<Longrightarrow>
   a = 0 \<or> a = 1 \<or> a = 2 \<or> a = 3 \<or> a = 4 \<or> a = 5 \<or> a = 6 \<or> a = 7 \<or> a = 8 \<or> a = (9 :: int)"
  by arith

lemma digit_char_simps:
  "digit_char 0 = CHR ''0''" "digit_char 1 = CHR ''1''" "digit_char 2 = CHR ''2''"
  "digit_char 3 = CHR ''3''" "digit_char 4 = CHR ''4''" "digit_char 5 = CHR ''5''"
  "digit_char 6 = CHR ''6''" "digit_char 7 = CHR ''7''" "digit_char 8 = CHR ''8''"
  "digit_char 9 = CHR ''9''"
  by (simp_all add: digit_char_def)

lemma is_digit_digit_char: "0 \<le> a \<Longrightarrow> a < 10 \<Longrightarrow> is_digit (digit_char a)"
  using digit_cases [of a] by (auto simp: is_digit_def digit_char_simps)

lemma digit_val_digit_char: "0 \<le> a \<Longrightarrow> a < 10 \<Longrightarrow> digit_val (digit_char a) = a"
  using digit_cases [of a] by (auto simp: digit_val_def digit_char_simps)

lemma digit_char_not_space: "0 \<le> a \<Longrightarrow> a < 10 \<Longrightarrow> digit_char a \<noteq> CHR '' ''"
  using digit_cases [of a] by (auto simp: digit_char_simps)

lemma class_digit:
  assumes "0 \<le> a" "a < 10"
  shows "one_of ''012345'' (digit_char a) = (a \<le> 5)"
    and "one_of ''0123'' (digit_char a) = (a \<le> 3)"
    and "one_of ''012'' (digit_char a) = (a \<le> 2)"
    and "one_of ''01'' (digit_char a) = (a \<le> 1)"
    and "one_of ''0'' (digit_char a) = (a = 0)"
    and "one_of ''1'' (digit_char a) = (a = 1)"
    and "one_of ''2'' (digit_char a) = (a = 2)"
    and "one_of ''3'' (digit_char a) = (a = 3)"
    and "one_of ''6'' (digit_char a) = (a = 6)"
    and "one_of ''12'' (digit_char a) = (a = 1 \<or> a = 2)"
    and "one_of ''123456789'' (digit_char a) = (1 \<le> a)"
    and "one_of '' '' (digit_char a) = False"
    and "one_of ''+-'' (digit_char a) = False"
    and "one_of '':'' (digit_char a) = False"
    and "one_of ''.'' (digit_char a) = False"
    and "one_of ''Z'' (digit_char a) = False"
  using digit_cases [OF assms] by (auto simp: one_of_def digit_char_simps)

lemma lit_match_digit:
  assumes "0 \<le> a" "a < 10"
  shows "lit_match (CHR ''-'') (digit_char a) = False"
    and "lit_match (CHR ''T'') (digit_char a) = False"
    and "lit_match (CHR '':'') (digit_char a) = False"
    and "lit_match (CHR ''Z'') (digit_char a) = False"
    and "lit_match (CHR ''.'') (digit_char a) = False"
  using digit_cases [OF assms] by (auto simp: lit_match_def to_lower_def digit_char_simps)

lemma lit_match_self:
  "lit_match (CHR ''-'') (CHR ''-'')" "lit_match (CHR ''T'') (CHR ''T'')"
  "lit_match (CHR '':'') (CHR '':'')" "lit_match (CHR ''Z'') (CHR ''Z'')"
  "lit_match (CHR ''.'') (CHR ''.'')"
  by (simp_all add: lit_match_def)

lemma lit_match_Z_other:
  "lit_match (CHR ''Z'') (CHR ''+'') = False" "lit_match (CHR ''Z'') (CHR ''-'') = False"
  "lit_match (CHR ''Z'') (CHR ''.'') = False"
  by (simp_all add: lit_match_def to_lower_def)

lemma py_int_pad2: "0 \<le> n \<Longrightarrow> n \<le> 99 \<Longrightarrow> py_int (pad2 n) = Inr n"
proof -
  assume n: "0 \<le> n" "n \<le> 99"
  then have d: "0 \<le> n div 10" "n div 10 < 10" "0 \<le> n mod 10" "n mod 10 < 10" by auto
  then show ?thesis
    by (simp add: py_int_def pad2_def digits_val_def digit_val_digit_char is_digit_digit_char
        digit_char_not_space)
qed



lemma map_filter_Cons:
  "List.map_filter f (x # xs) =
     (case f x of None \<Rightarrow> List.map_filter f xs | Some y \<Rightarrow> y # List.map_filter f xs)"
  by (simp add: List.map_filter_def split: option.splits)

lemma map_filter_Nil: "List.map_filter f [] = []"
  by (simp add: List.map_filter_def)

lemmas alts_simps = alts_def map_filter_Cons map_filter_Nil

lemma div_div_10:
  "(n :: int) div 10 div 10 = n div 100" "(n :: int) div 100 div 10 = n div 1000"
  "(n :: int) div 1000 div 10 = n div 10000" "(n :: int) div 10000 div 10 = n div 100000"
  by (simp_all add: zdiv_zmult2_eq [symmetric])

lemma shift_digit: "(k :: int) = 10 * (k div 10) + k mod 10"
  by simp

lemma mod_10_digit: "0 \<le> (k :: int) mod 10" "(k :: int) mod 10 < 10"
  by auto

lemma combine4:
  "n = 10 * q1 + d0 \<Longrightarrow> q1 = 10 * q2 + d1 \<Longrightarrow> q2 = 10 * q3 + d2 \<Longrightarrow>
   10 * (10 * (10 * (10 * 0 + q3) + d2) + d1) + d0 = (n :: int)"
  by simp

lemma combine6:
  "n = 10 * q1 + d0 \<Longrightarrow> q1 = 10 * q2 + d1 \<Longrightarrow> q2 = 10 * q3 + d2 \<Longrightarrow>
   q3 = 10 * q4 + d3 \<Longrightarrow> q4 = 10 * q5 + d4 \<Longrightarrow>
   10 * (10 * (10 * (10 * (10 * (10 * 0 + q5) + d4) + d3) + d2) + d1) + d0 = (n :: int)"
  by simp

lemma py_int_digits:
  assumes "s \<noteq> []" "list_all is_digit s" "hd s \<noteq> CHR '' ''"
  shows "py_int s = Inr (digits_val s)"
proof -
  from assms(1,3) have "dropWhile (\<lambda>c. c = CHR '' '') s = s"
    by (cases s) auto
  with assms(1,2) show ?thesis
    by (simp add: py_int_def)
qed

lemma py_int_pad4: "0 \<le> n \<Longrightarrow> n \<le> 9999 \<Longrightarrow> py_int (pad4 n) = Inr n"
proof -
  assume n: "0 \<le> n" "n \<le> 9999"
  then have d: "0 \<le> n div 1000" "n div 1000 < 10" by auto
  have s1: "n = 10 * (n div 10) + n mod 10" by (rule shift_digit)
  have s2: "n div 10 = 10 * (n div 100) + n div 10 mod 10"
    using shift_digit [of "n div 10"] unfolding div_div_10 .
  have s3: "n div 100 = 10 * (n div 1000) + n div 100 mod 10"
    using shift_digit [of "n div 100"] unfolding div_div_10 .
  have "digits_val (pad4 n)
      = 10 * (10 * (10 * (10 * 0 + n div 1000) + n div 100 mod 10) + n div 10 mod 10) + n mod 10"
    by (simp only: digits_val_def pad4_def foldl_Cons foldl_Nil
        digit_val_digit_char [OF d] digit_val_digit_char [OF mod_10_digit])
  also have "\<dots> = n" by (rule combine4 [OF s1 s2 s3])
  finally have v: "digits_val (pad4 n) = n" .
  have "py_int (pad4 n) = Inr (digits_val (pad4 n))"
    by (rule py_int_digits)
      (simp_all add: pad4_def is_digit_digit_char d mod_10_digit digit_char_not_space)
  with v show ?thesis by simp
qed

lemma py_int_pad6: "0 \<le> n \<Longrightarrow> n \<le> 999999 \<Longrightarrow> py_int (pad6 n) = Inr n"
proof -
  assume n: "0 \<le> n" "n \<le> 999999"
  then have d: "0 \<le> n div 100000" "n div 100000 < 10" by auto
  have s1: "n = 10 * (n div 10) + n mod 10" by (rule shift_digit)
  have s2: "n div 10 = 10 * (n div 100) + n div 10 mod 10"
    using shift_digit [of "n div 10"] unfolding div_div_10 .
  have s3: "n div 100 = 10 * (n div 1000) + n div 100 mod 10"
    using shift_digit [of "n div 100"] unfolding div_div_10 .
  have s4: "n div 1000 = 10 * (n div 10000) + n div 1000 mod 10"
    using shift_digit [of "n div 1000"] unfolding div_div_10 .
  have s5: "n div 10000 = 10 * (n div 100000) + n div 10000 mod 10"
    using shift_digit [of "n div 10000"] unfolding div_div_10 .
  have "digits_val (pad6 n)
      = 10 * (10 * (10 * (10 * (10 * (10 * 0 + n div 100000) + n div 10000 mod 10)
          + n div 1000 mod 10) + n div 100 mod 10) + n div 10 mod 10) + n mod 10"
    by (simp only: digits_val_def pad6_def foldl_Cons foldl_Nil
        digit_val_digit_char [OF d] digit_val_digit_char [OF mod_10_digit])
  also have "\<dots> = n" by (rule combine6 [OF s1 s2 s3 s4 s5])
  finally have v: "digits_val (pad6 n) = n" .
  have "py_int (pad6 n) = Inr (digits_val (pad6 n))"
    by (rule py_int_digits)
      (simp_all add: pad6_def is_digit_digit_char d mod_10_digit digit_char_not_space)
  with v show ?thesis by simp
qed

text \<open>The alternatives of each group on a zero-padded field: the whole field first, and
  after it at most the first digit alone, which leaves the second digit.\<close>

lemma alts_DY:
  assumes "0 \<le> y" "y \<le> 9999"
  shows "alts DY (pad4 y @ r) = [(pad4 y, r)]"
proof -
  from assms have d: "0 \<le> y div 1000" "y div 1000 < 10" by auto
  have e: "0 \<le> k mod 10" "k mod 10 < 10" for k :: int by auto
  show ?thesis
    by (simp add: alts_simps pad4_def is_digit_digit_char d e)
qed

lemma alts_Dm:
  assumes "1 \<le> m" "m \<le> 12"
  shows "alts Dm (pad2 m @ r) = (pad2 m, r) #
     (if m div 10 = 1 then [([digit_char (m div 10)], digit_char (m mod 10) # r)] else [])"
proof -
  from assms have d: "0 \<le> m div 10" "m div 10 < 10" "0 \<le> m mod 10" "m mod 10 < 10" by auto
  from assms have "m div 10 = 1 \<and> m mod 10 \<le> 2 \<or> m div 10 = 0 \<and> 1 \<le> m mod 10"
    by presburger
  then consider "m div 10 = 1" "m mod 10 \<le> 2" | "m div 10 = 0" "1 \<le> m mod 10"
    by blast
  then show ?thesis
  proof cases
    case 1
    with d(3,4) show ?thesis
      by (simp add: alts_simps pad2_def class_digit)
  next
    case 2
    with d(3,4) show ?thesis
      by (simp add: alts_simps pad2_def class_digit)
  qed
qed

lemma alts_Dd:
  assumes "1 \<le> n" "n \<le> 31"
  shows "alts Dd (pad2 n @ r) = (pad2 n, r) #
     (if 1 \<le> n div 10 then [([digit_char (n div 10)], digit_char (n mod 10) # r)] else [])"
proof -
  from assms have d: "0 \<le> n div 10" "n div 10 < 10" "0 \<le> n mod 10" "n mod 10 < 10" by auto
  from assms have "n div 10 = 3 \<and> n mod 10 \<le> 1 \<or> n div 10 = 2 \<or> n div 10 = 1
      \<or> n div 10 = 0 \<and> 1 \<le> n mod 10"
    by presburger
  then consider "n div 10 = 3" "n mod 10 \<le> 1" | "n div 10 = 2" | "n div 10 = 1"
    | "n div 10 = 0" "1 \<le> n mod 10"
    by blast
  then show ?thesis
  proof cases
    case 1
    with d(3,4) show ?thesis
      by (simp add: alts_simps pad2_def class_digit is_digit_digit_char)
  next
    case 2
    with d(3,4) show ?thesis
      by (simp add: alts_simps pad2_def class_digit is_digit_digit_char)
  next
    case 3
    with d(3,4) show ?thesis
      by (simp add: alts_simps pad2_def class_digit is_digit_digit_char)
  next
    case 4
    with d(3,4) show ?thesis
      by (simp add: alts_simps pad2_def class_digit is_digit_digit_char)
  qed
qed

lemma alts_DH:
  assumes "0 \<le> n" "n \<le> 23"
  shows "alts DH (pad2 n @ r) =
     [(pad2 n, r), ([digit_char (n div 10)], digit_char (n mod 10) # r)]"
proof -
  from assms have d: "0 \<le> n div 10" "n div 10 < 10" "0 \<le> n mod 10" "n mod 10 < 10" by auto
  from assms have "n div 10 = 2 \<and> n mod 10 \<le> 3 \<or> n div 10 = 1 \<or> n div 10 = 0"
    by presburger
  then consider "n div 10 = 2" "n mod 10 \<le> 3" | "n div 10 = 1" | "n div 10 = 0"
    by blast
  then show ?thesis
  proof cases
    case 1
    with d(3,4) show ?thesis
      by (simp add: alts_simps pad2_def class_digit is_digit_digit_char)
  next
    case 2
    with d(3,4) show ?thesis
      by (simp add: alts_simps pad2_def class_digit is_digit_digit_char)
  next
    case 3
    with d(3,4) show ?thesis
      by (simp add: alts_simps pad2_def class_digit is_digit_digit_char)
  qed
qed

lemma alts_DM:
  assumes "0 \<le> n" "n \<le> 59"
  shows "alts DM (pad2 n @ r) =
     [(pad2 n, r), ([digit_char (n div 10)], digit_char (n mod 10) # r)]"
proof -
  from assms have d: "0 \<le> n div 10" "n div 10 < 10" "0 \<le> n mod 10" "n mod 10 < 10" by auto
  from assms have c: "n div 10 \<le> 5" by presburger
  with d show ?thesis
    by (simp add: alts_simps pad2_def class_digit is_digit_digit_char)
qed

lemma alts_DS:
  assumes "0 \<le> n" "n \<le> 59"
  shows "alts DS (pad2 n @ r) =
     [(pad2 n, r), ([digit_char (n div 10)], digit_char (n mod 10) # r)]"
proof -
  from assms have d: "0 \<le> n div 10" "n div 10 < 10" "0 \<le> n mod 10" "n mod 10 < 10" by auto
  from assms have c: "n div 10 \<le> 5" by presburger
  then have "n div 10 \<noteq> 6" by simp
  with c d show ?thesis
    by (simp add: alts_simps pad2_def class_digit is_digit_digit_char)
qed

lemma first_some_all_None: "\<forall>x \<in> set xs. x = None \<Longrightarrow> first_some xs = None"
proof (induction xs)
  case Nil
  show ?case by simp
next
  case (Cons a xs)
  then have "a = None" "first_some xs = None" by simp_all
  then show ?case by simp
qed

lemma first_some_head: "\<forall>x \<in> set xs. x = None \<Longrightarrow> first_some (y # xs) = y"
  by (cases y) (simp_all add: first_some_all_None)

text \<open>A group followed by a literal that is no digit: only the whole field can go on.\<close>

lemma dir_lit_step:
  assumes alts: "alts D (t @ l # r) = (t, l # r) # others"
    and others: "\<And>x. x \<in> set others \<Longrightarrow> \<exists>a r'. 0 \<le> a \<and> a < 10 \<and> snd x = digit_char a # r'"
    and lit: "\<And>a. 0 \<le> a \<Longrightarrow> a < 10 \<Longrightarrow> \<not> lit_match l (digit_char a)"
    and self: "lit_match l l"
  shows "match_fmt (Dir D # Lit l # fs) (t @ l # r) found = match_fmt fs r (found @ [(D, t)])"
proof -
  let ?g = "\<lambda>(t, r). match_fmt (Lit l # fs) r (found @ [(D, t)])"
  have "x = None" if "x \<in> set (map ?g others)" for x
  proof -
    from that obtain u where u: "u \<in> set others" "x = ?g u" by auto
    from others [OF u(1)] obtain a r' where a: "0 \<le> a" "a < 10" "snd u = digit_char a # r'"
      by blast
    obtain t' where t': "u = (t', digit_char a # r')"
      using a(3) by (cases u) simp
    from lit [OF a(1,2)] have "match_fmt (Lit l # fs) (digit_char a # r') (found @ [(D, t')]) = None"
      by simp
    with u(2) t' show ?thesis by simp
  qed
  then have "\<forall>x \<in> set (map ?g others). x = None" by blast
  then have "first_some (?g (t, l # r) # map ?g others) = ?g (t, l # r)"
    by (rule first_some_head)
  moreover have "?g (t, l # r) = match_fmt fs r (found @ [(D, t)])"
    using self by simp
  moreover have "match_fmt (Dir D # Lit l # fs) (t @ l # r) found
      = first_some (map ?g (alts D (t @ l # r)))"
    by simp
  ultimately show ?thesis
    by (simp only: alts list.map)
qed

lemma pad2_digits: "0 \<le> n mod 10 \<and> n mod 10 < (10 :: int)"
  by auto

lemma step_DY:
  assumes "0 \<le> y" "y \<le> 9999"
  shows "match_fmt (Dir DY # Lit (CHR ''-'') # fs) (pad4 y @ CHR ''-'' # r) found
    = match_fmt fs r (found @ [(DY, pad4 y)])"
proof (rule dir_lit_step)
  show "alts DY (pad4 y @ CHR ''-'' # r) = (pad4 y, CHR ''-'' # r) # []"
    by (rule alts_DY [OF assms])
  fix x :: "string \<times> string"
  assume "x \<in> set []"
  then show "\<exists>a r'. 0 \<le> a \<and> a < 10 \<and> snd x = digit_char a # r'" by simp
qed (simp_all add: lit_match_digit lit_match_self)

lemma step_Dm:
  assumes "1 \<le> m" "m \<le> 12"
  shows "match_fmt (Dir Dm # Lit (CHR ''-'') # fs) (pad2 m @ CHR ''-'' # r) found
    = match_fmt fs r (found @ [(Dm, pad2 m)])"
proof (rule dir_lit_step)
  show "alts Dm (pad2 m @ CHR ''-'' # r) = (pad2 m, CHR ''-'' # r) #
     (if m div 10 = 1 then [([digit_char (m div 10)], digit_char (m mod 10) # CHR ''-'' # r)]
      else [])"
    by (rule alts_Dm [OF assms])
  fix x
  assume "x \<in> set (if m div 10 = 1
      then [([digit_char (m div 10)], digit_char (m mod 10) # CHR ''-'' # r)] else [])"
  then have "snd x = digit_char (m mod 10) # CHR ''-'' # r" by (auto split: if_splits)
  with pad2_digits [of m] show "\<exists>a r'. 0 \<le> a \<and> a < 10 \<and> snd x = digit_char a # r'" by blast
qed (simp_all add: lit_match_digit lit_match_self)

lemma step_Dd:
  assumes "1 \<le> n" "n \<le> 31"
  shows "match_fmt (Dir Dd # Lit (CHR ''T'') # fs) (pad2 n @ CHR ''T'' # r) found
    = match_fmt fs r (found @ [(Dd, pad2 n)])"
proof (rule dir_lit_step)
  show "alts Dd (pad2 n @ CHR ''T'' # r) = (pad2 n, CHR ''T'' # r) #
     (if 1 \<le> n div 10 then [([digit_char (n div 10)], digit_char (n mod 10) # CHR ''T'' # r)]
      else [])"
    by (rule alts_Dd [OF assms])
  fix x
  assume "x \<in> set (if 1 \<le> n div 10
      then [([digit_char (n div 10)], digit_char (n mod 10) # CHR ''T'' # r)] else [])"
  then have "snd x = digit_char (n mod 10) # CHR ''T'' # r" by (auto split: if_splits)
  with pad2_digits [of n] show "\<exists>a r'. 0 \<le> a \<and> a < 10 \<and> snd x = digit_char a # r'" by blast
qed (simp_all add: lit_match_digit lit_match_self)

lemma step_DH:
  assumes "0 \<le> n" "n \<le> 23"
  shows "match_fmt (Dir DH # Lit (CHR '':'') # fs) (pad2 n @ CHR '':'' # r) found
    = match_fmt fs r (found @ [(DH, pad2 n)])"
proof (rule dir_lit_step)
  show "alts DH (pad2 n @ CHR '':'' # r)
     = (pad2 n, CHR '':'' # r) # [([digit_char (n div 10)], digit_char (n mod 10) # CHR '':'' # r)]"
    by (rule alts_DH [OF assms])
  fix x
  assume "x \<in> set [([digit_char (n div 10)], digit_char (n mod 10) # CHR '':'' # r)]"
  then have "snd x = digit_char (n mod 10) # CHR '':'' # r" by auto
  with pad2_digits [of n] show "\<exists>a r'. 0 \<le> a \<and> a < 10 \<and> snd x = digit_char a # r'" by blast
qed (simp_all add: lit_match_digit lit_match_self)

lemma step_DM:
  assumes "0 \<le> n" "n \<le> 59"
  shows "match_fmt (Dir DM # Lit (CHR '':'') # fs) (pad2 n @ CHR '':'' # r) found
    = match_fmt fs r (found @ [(DM, pad2 n)])"
proof (rule dir_lit_step)
  show "alts DM (pad2 n @ CHR '':'' # r)
     = (pad2 n, CHR '':'' # r) # [([digit_char (n div 10)], digit_char (n mod 10) # CHR '':'' # r)]"
    by (rule alts_DM [OF assms])
  fix x
  assume "x \<in> set [([digit_char (n div 10)], digit_char (n mod 10) # CHR '':'' # r)]"
  then have "snd x = digit_char (n mod 10) # CHR '':'' # r" by auto
  with pad2_digits [of n] show "\<exists>a r'. 0 \<le> a \<and> a < 10 \<and> snd x = digit_char a # r'" by blast
qed (simp_all add: lit_match_digit lit_match_self)

lemma step_DS:
  assumes "0 \<le> n" "n \<le> 59"
  shows "match_fmt (Dir DS # fs) (pad2 n @ r) found
    = first_some [match_fmt fs r (found @ [(DS, pad2 n)]),
        match_fmt fs (digit_char (n mod 10) # r) (found @ [(DS, [digit_char (n div 10)])])]"
  by (simp add: alts_DS [OF assms])

text \<open>The common part of the five formats on the common part of the timestamps.\<close>

lemma match_base:
  assumes "check_date y m d" "check_time h mi s 0"
  shows "match_fmt
      (Dir DY # Lit (CHR ''-'') # Dir Dm # Lit (CHR ''-'') # Dir Dd # Lit (CHR ''T'')
        # Dir DH # Lit (CHR '':'') # Dir DM # Lit (CHR '':'') # Dir DS # fs)
      (iso_base y m d h mi s @ r) []
    = first_some
        [match_fmt fs r
           [(DY, pad4 y), (Dm, pad2 m), (Dd, pad2 d), (DH, pad2 h), (DM, pad2 mi), (DS, pad2 s)],
         match_fmt fs (digit_char (s mod 10) # r)
           [(DY, pad4 y), (Dm, pad2 m), (Dd, pad2 d), (DH, pad2 h), (DM, pad2 mi),
            (DS, [digit_char (s div 10)])]]"
proof -
  have "days_in_month y m \<le> 31" if "1 \<le> m" "m \<le> 12"
  proof -
    from that have "m = 1 \<or> m = 2 \<or> m = 3 \<or> m = 4 \<or> m = 5 \<or> m = 6 \<or> m = 7 \<or> m = 8
        \<or> m = 9 \<or> m = 10 \<or> m = 11 \<or> m = 12"
      by arith
    then show ?thesis by (auto simp: days_in_month_def)
  qed
  with assms have f: "0 \<le> y" "y \<le> 9999" "1 \<le> m" "m \<le> 12" "1 \<le> d" "d \<le> 31"
    "0 \<le> h" "h \<le> 23" "0 \<le> mi" "mi \<le> 59" "0 \<le> s" "s \<le> 59"
    by (auto simp: check_date_def check_time_def)
  show ?thesis
    unfolding iso_base_def
    by (simp only: append_assoc append_Cons append_Nil step_DY [OF f(1,2)] step_Dm [OF f(3,4)]
        step_Dd [OF f(5,6)] step_DH [OF f(7,8)] step_DM [OF f(9,10)] step_DS [OF f(11,12)])
qed

lemma alts_Dz_Nil: "alts Dz [] = []"
  by (simp add: alts_simps z_groups_def z_fracs_def)

lemma alts_Dz_digit: "0 \<le> a \<Longrightarrow> a < 10 \<Longrightarrow> alts Dz (digit_char a # r) = []"
  by (simp add: alts_simps z_groups_def z_fracs_def class_digit)

lemma alts_Dz_dot: "alts Dz (CHR ''.'' # r) = []"
  by (simp add: alts_simps z_groups_def z_fracs_def one_of_def)

lemma alts_Dz_offset:
  assumes "0 \<le> hh" "hh \<le> 23" "0 \<le> mm" "mm \<le> 59" "sg = CHR ''+'' \<or> sg = CHR ''-''"
  shows "alts Dz (sg # pad2 hh @ CHR '':'' # pad2 mm) = [(sg # pad2 hh @ CHR '':'' # pad2 mm, [])]"
proof -
  from assms have d: "0 \<le> hh div 10" "hh div 10 < 10" "0 \<le> mm div 10" "mm div 10 < 10"
    by auto
  from assms(3,4) have c: "mm div 10 \<le> 5" by presburger
  have sg: "one_of ''+-'' sg" "\<not> one_of ''Z'' sg"
    using assms(5) by (auto simp: one_of_def)
  have colon: "one_of '':'' (CHR '':'')" "\<not> one_of ''012345'' (CHR '':'')"
    by (simp_all add: one_of_def)
  show ?thesis
    by (simp add: alts_simps z_groups_def z_fracs_def pad2_def sg colon c
        is_digit_digit_char d mod_10_digit class_digit)
qed

lemma alts_Df_six:
  assumes "is_digit c1" "is_digit c2" "is_digit c3" "is_digit c4" "is_digit c5" "is_digit c6"
  shows "alts Df (c1 # c2 # c3 # c4 # c5 # c6 # r)
    = [([c1, c2, c3, c4, c5, c6], r),
       ([c1, c2, c3, c4, c5], c6 # r),
       ([c1, c2, c3, c4], c5 # c6 # r),
       ([c1, c2, c3], c4 # c5 # c6 # r),
       ([c1, c2], c3 # c4 # c5 # c6 # r),
       ([c1], c2 # c3 # c4 # c5 # c6 # r)]"
  using assms by (simp add: alts_simps eval_nat_numeral)

lemma pad6_digits:
  assumes "0 \<le> us" "us \<le> 999999"
  shows "\<exists>a1 a2 a3 a4 a5 a6. pad6 us = map digit_char [a1, a2, a3, a4, a5, a6]
    \<and> list_all (\<lambda>a. 0 \<le> a \<and> a < 10) [a1, a2, a3, a4, a5, a6]"
proof -
  from assms have d: "0 \<le> us div 100000" "us div 100000 < 10" by auto
  have "pad6 us = map digit_char [us div 100000, us div 10000 mod 10, us div 1000 mod 10,
      us div 100 mod 10, us div 10 mod 10, us mod 10]
    \<and> list_all (\<lambda>a. 0 \<le> a \<and> a < 10) [us div 100000, us div 10000 mod 10, us div 1000 mod 10,
      us div 100 mod 10, us div 10 mod 10, us mod 10]"
    using d by (simp add: pad6_def)
  then show ?thesis by blast
qed

lemma alts_Df_pad6:
  assumes "0 \<le> us" "us \<le> 999999"
  shows "\<exists>others. alts Df (pad6 us @ r) = (pad6 us, r) # others
    \<and> (\<forall>x \<in> set others. \<exists>a r'. 0 \<le> a \<and> a < 10 \<and> snd x = digit_char a # r')"
proof -
  from pad6_digits [OF assms] obtain a1 a2 a3 a4 a5 a6 where
    p: "pad6 us = map digit_char [a1, a2, a3, a4, a5, a6]"
    and a: "0 \<le> a1" "a1 < 10" "0 \<le> a2" "a2 < 10" "0 \<le> a3" "a3 < 10"
      "0 \<le> a4" "a4 < 10" "0 \<le> a5" "a5 < 10" "0 \<le> a6" "a6 < 10"
    by auto
  have "alts Df (pad6 us @ r)
    = (pad6 us, r) #
      [([digit_char a1, digit_char a2, digit_char a3, digit_char a4, digit_char a5],
        digit_char a6 # r),
       ([digit_char a1, digit_char a2, digit_char a3, digit_char a4],
        digit_char a5 # digit_char a6 # r),
       ([digit_char a1, digit_char a2, digit_char a3],
        digit_char a4 # digit_char a5 # digit_char a6 # r),
       ([digit_char a1, digit_char a2],
        digit_char a3 # digit_char a4 # digit_char a5 # digit_char a6 # r),
       ([digit_char a1],
        digit_char a2 # digit_char a3 # digit_char a4 # digit_char a5 # digit_char a6 # r)]"
    unfolding p using a
    by (simp add: alts_Df_six is_digit_digit_char)
  moreover have "\<forall>x \<in> set
      [([digit_char a1, digit_char a2, digit_char a3, digit_char a4, digit_char a5],
        digit_char a6 # r),
       ([digit_char a1, digit_char a2, digit_char a3, digit_char a4],
        digit_char a5 # digit_char a6 # r),
       ([digit_char a1, digit_char a2, digit_char a3],
        digit_char a4 # digit_char a5 # digit_char a6 # r),
       ([digit_char a1, digit_char a2],
        digit_char a3 # digit_char a4 # digit_char a5 # digit_char a6 # r),
       ([digit_char a1],
        digit_char a2 # digit_char a3 # digit_char a4 # digit_char a5 # digit_char a6 # r)].
      \<exists>a r'. 0 \<le> a \<and> a < 10 \<and> snd x = digit_char a # r'"
    using a by auto
  ultimately show ?thesis by blast
qed

text \<open>A group followed by a literal that nothing left by the group can match.\<close>

lemma dir_lit_none:
  assumes "\<forall>x \<in> set (alts D s). snd x = [] \<or> (\<exists>c r'. snd x = c # r' \<and> \<not> lit_match l c)"
  shows "match_fmt (Dir D # Lit l # fs) s found = None"
proof -
  let ?g = "\<lambda>(t, r). match_fmt (Lit l # fs) r (found @ [(D, t)])"
  have "\<forall>x \<in> set (map ?g (alts D s)). x = None"
  proof
    fix x assume "x \<in> set (map ?g (alts D s))"
    then obtain u where u: "u \<in> set (alts D s)" "x = ?g u" by auto
    obtain t r where tr: "u = (t, r)" by (cases u)
    from assms u(1) tr have "r = [] \<or> (\<exists>c r'. r = c # r' \<and> \<not> lit_match l c)" by auto
    then have "match_fmt (Lit l # fs) r (found @ [(D, t)]) = None" by auto
    with u(2) tr show "x = None" by simp
  qed
  then have "first_some (map ?g (alts D s)) = None" by (rule first_some_all_None)
  then show ?thesis by simp
qed

lemma dir_none: "alts D s = [] \<Longrightarrow> match_fmt (Dir D # fs) s found = None"
  by simp

lemma dir_last:
  "alts D s = (t, r) # others \<Longrightarrow> match_fmt [Dir D] s found = Some (found @ [(D, t)], r)"
  by simp

lemma match_items:
  assumes "check_date y m d" "check_time h mi s 0"
  shows "match_fmt (base_items @ fs) (iso_base y m d h mi s @ r) []
    = first_some
        [match_fmt fs r (base_groups y m d h mi s),
         match_fmt fs (digit_char (s mod 10) # r)
           [(DY, pad4 y), (Dm, pad2 m), (Dd, pad2 d), (DH, pad2 h), (DM, pad2 mi),
            (DS, [digit_char (s div 10)])]]"
  using match_base [OF assms, of fs r] by (simp add: base_items_def base_groups_def)

lemma match_plain:
  assumes "check_date y m d" "check_time h mi s 0"
  shows "match_fmt base_items (iso_base y m d h mi s @ r) [] = Some (base_groups y m d h mi s, r)"
  using match_items [OF assms, of "[]" r] by simp

lemma match_Z_ok:
  assumes "check_date y m d" "check_time h mi s 0"
  shows "match_fmt (base_items @ [Lit (CHR ''Z'')]) (iso_base y m d h mi s @ ''Z'') []
    = Some (base_groups y m d h mi s, [])"
  using match_items [OF assms, of "[Lit (CHR ''Z'')]" "''Z''"] by (simp add: lit_match_self)

lemma match_Z_fail:
  assumes "check_date y m d" "check_time h mi s 0"
    and "r = [] \<or> (\<exists>c r'. r = c # r' \<and> \<not> lit_match (CHR ''Z'') c)"
  shows "match_fmt (base_items @ [Lit (CHR ''Z'')]) (iso_base y m d h mi s @ r) [] = None"
proof -
  from assms(3) have "match_fmt [Lit (CHR ''Z'')] r found = None" for found
    by auto
  moreover have "match_fmt [Lit (CHR ''Z'')] (digit_char (s mod 10) # r) found = None" for found
    by (simp add: lit_match_digit mod_10_digit)
  ultimately show ?thesis
    using match_items [OF assms(1,2), of "[Lit (CHR ''Z'')]" r] by simp
qed

lemma match_z_ok:
  assumes "check_date y m d" "check_time h mi s 0"
    and "0 \<le> hh" "hh \<le> 23" "0 \<le> mm" "mm \<le> 59" "sg = CHR ''+'' \<or> sg = CHR ''-''"
  shows "match_fmt (base_items @ [Dir Dz])
      (iso_base y m d h mi s @ sg # pad2 hh @ CHR '':'' # pad2 mm) []
    = Some (base_groups y m d h mi s @ [(Dz, sg # pad2 hh @ CHR '':'' # pad2 mm)], [])"
  using match_items [OF assms(1,2), of "[Dir Dz]" "sg # pad2 hh @ CHR '':'' # pad2 mm"]
  by (simp add: alts_Dz_offset [OF assms(3-7)])

lemma match_z_fail:
  assumes "check_date y m d" "check_time h mi s 0" and "alts Dz r = []"
  shows "match_fmt (base_items @ [Dir Dz]) (iso_base y m d h mi s @ r) [] = None"
  using match_items [OF assms(1,2), of "[Dir Dz]" r] assms(3)
  by (simp add: alts_Dz_digit mod_10_digit)

lemma match_fZ_ok:
  assumes "check_date y m d" "check_time h mi s 0" and "0 \<le> us" "us \<le> 999999"
  shows "match_fmt (base_items @ [Lit (CHR ''.''), Dir Df, Lit (CHR ''Z'')])
      (iso_base y m d h mi s @ CHR ''.'' # pad6 us @ ''Z'') []
    = Some (base_groups y m d h mi s @ [(Df, pad6 us)], [])"
proof -
  from alts_Df_pad6 [OF assms(3,4), of "''Z''"] obtain others where
    o: "alts Df (pad6 us @ ''Z'') = (pad6 us, ''Z'') # others"
    "\<forall>x \<in> set others. \<exists>a r'. 0 \<le> a \<and> a < 10 \<and> snd x = digit_char a # r'"
    by blast
  have "match_fmt (Dir Df # Lit (CHR ''Z'') # []) (pad6 us @ CHR ''Z'' # []) found
    = match_fmt [] [] (found @ [(Df, pad6 us)])" for found
  proof (rule dir_lit_step)
    show "alts Df (pad6 us @ ''Z'') = (pad6 us, ''Z'') # others" by (rule o(1))
    fix x assume "x \<in> set others"
    with o(2) show "\<exists>a r'. 0 \<le> a \<and> a < 10 \<and> snd x = digit_char a # r'" by blast
  qed (simp_all add: lit_match_digit lit_match_self)
  then show ?thesis
    using match_items [OF assms(1,2), of "[Lit (CHR ''.''), Dir Df, Lit (CHR ''Z'')]"
        "CHR ''.'' # pad6 us @ ''Z''"]
    by (simp add: lit_match_self)
qed

lemma match_fZ_fail:
  assumes "check_date y m d" "check_time h mi s 0" and "0 \<le> us" "us \<le> 999999"
  shows "match_fmt (base_items @ [Lit (CHR ''.''), Dir Df, Lit (CHR ''Z'')])
      (iso_base y m d h mi s @ CHR ''.'' # pad6 us) []
    = None"
proof -
  from alts_Df_pad6 [OF assms(3,4), of "[]"] obtain others where
    o: "alts Df (pad6 us) = (pad6 us, []) # others"
    "\<forall>x \<in> set others. \<exists>a r'. 0 \<le> a \<and> a < 10 \<and> snd x = digit_char a # r'"
    by auto
  have "\<forall>x \<in> set (alts Df (pad6 us)).
      snd x = [] \<or> (\<exists>c r'. snd x = c # r' \<and> \<not> lit_match (CHR ''Z'') c)"
  proof
    fix x assume "x \<in> set (alts Df (pad6 us))"
    with o(1) consider "x = (pad6 us, [])" | "x \<in> set others" by auto
    then show "snd x = [] \<or> (\<exists>c r'. snd x = c # r' \<and> \<not> lit_match (CHR ''Z'') c)"
    proof cases
      case 1
      then show ?thesis by simp
    next
      case 2
      with o(2) obtain a r' where "0 \<le> a" "a < 10" "snd x = digit_char a # r'" by blast
      then show ?thesis by (simp add: lit_match_digit)
    qed
  qed
  then have "match_fmt (Dir Df # Lit (CHR ''Z'') # []) (pad6 us) found = None" for found
    by (rule dir_lit_none)
  then show ?thesis
    using match_items [OF assms(1,2), of "[Lit (CHR ''.''), Dir Df, Lit (CHR ''Z'')]"
        "CHR ''.'' # pad6 us"]
    by (simp add: lit_match_self lit_match_digit mod_10_digit)
qed

lemma match_f_ok:
  assumes "check_date y m d" "check_time h mi s 0" and "0 \<le> us" "us \<le> 999999"
  shows "match_fmt (base_items @ [Lit (CHR ''.''), Dir Df])
      (iso_base y m d h mi s @ CHR ''.'' # pad6 us) []
    = Some (base_groups y m d h mi s @ [(Df, pad6 us)], [])"
proof -
  from alts_Df_pad6 [OF assms(3,4), of "[]"] obtain others where
    o: "alts Df (pad6 us) = (pad6 us, []) # others"
    by auto
  have "match_fmt [Dir Df] (pad6 us) found = Some (found @ [(Df, pad6 us)], [])" for found
    using o by (rule dir_last)
  then show ?thesis
    using match_items [OF assms(1,2), of "[Lit (CHR ''.''), Dir Df]" "CHR ''.'' # pad6 us"]
    by (simp add: lit_match_self)
qed

lemma days_in_month_le: "1 \<le> m \<Longrightarrow> m \<le> 12 \<Longrightarrow> days_in_month y m \<le> 31"
proof -
  assume "1 \<le> m" "m \<le> 12"
  then have "m = 1 \<or> m = 2 \<or> m = 3 \<or> m = 4 \<or> m = 5 \<or> m = 6 \<or> m = 7 \<or> m = 8
      \<or> m = 9 \<or> m = 10 \<or> m = 11 \<or> m = 12"
    by arith
  then show ?thesis by (auto simp: days_in_month_def)
qed

lemma base_fields:
  assumes "check_date y m d" "check_time h mi s 0"
  shows "py_int (pad4 y) = Inr y" "py_int (pad2 m) = Inr m" "py_int (pad2 d) = Inr d"
    "py_int (pad2 h) = Inr h" "py_int (pad2 mi) = Inr mi" "py_int (pad2 s) = Inr s"
proof -
  from assms have f: "0 \<le> y" "y \<le> 9999" "1 \<le> m" "m \<le> 12" "1 \<le> d" "d \<le> days_in_month y m"
    "0 \<le> h" "h \<le> 23" "0 \<le> mi" "mi \<le> 59" "0 \<le> s" "s \<le> 59"
    by (auto simp: check_date_def check_time_def)
  from days_in_month_le [OF f(3,4), of y] f(6) have d: "d \<le> 31" by simp
  from f(1,2) show "py_int (pad4 y) = Inr y" by (rule py_int_pad4)
  from f(3,4) show "py_int (pad2 m) = Inr m" by (intro py_int_pad2) auto
  from f(5) d show "py_int (pad2 d) = Inr d" by (intro py_int_pad2) auto
  from f(7,8) show "py_int (pad2 h) = Inr h" by (intro py_int_pad2) auto
  from f(9,10) show "py_int (pad2 mi) = Inr mi" by (intro py_int_pad2) auto
  from f(11,12) show "py_int (pad2 s) = Inr s" by (intro py_int_pad2) auto
qed

lemma convert_base:
  assumes "check_date y m d" "check_time h mi s 0"
  shows "convert (base_groups y m d h mi s) = Inr (Datetime y m d h mi s 0 None)"
  using assms
  by (simp add: convert_def group_int_def base_groups_def base_fields [OF assms]
      conv_f_def conv_tz_def)

lemma length_pad6: "length (pad6 us) = 6"
  by (simp add: pad6_def)

lemma convert_frac:
  assumes "check_date y m d" "check_time h mi s us"
  shows "convert (base_groups y m d h mi s @ [(Df, pad6 us)]) = Inr (Datetime y m d h mi s us None)"
proof -
  from assms(2) have t: "check_time h mi s 0" and us: "0 \<le> us" "us \<le> 999999"
    by (auto simp: check_time_def)
  show ?thesis
    using assms
    by (simp add: convert_def group_int_def base_groups_def base_fields [OF assms(1) t]
      conv_f_def conv_tz_def length_pad6 py_int_pad6 [OF us])
qed

lemma py_int_zeros: "py_int (replicate (6 - length (drop 8 [a, b, c, d, e :: char])) (CHR ''0'')) = Inr 0"
proof -
  have "py_int ''000000'' = Inr 0" by code_simp
  then show ?thesis by (simp add: eval_nat_numeral)
qed

lemma conv_z_offset:
  assumes "0 \<le> hh" "hh \<le> 23" "0 \<le> mm" "mm \<le> 59" "sg = CHR ''+'' \<or> sg = CHR ''-''"
  shows "conv_z (sg # pad2 hh @ CHR '':'' # pad2 mm)
    = Inr ((if sg = CHR ''-'' then - 1 else 1) * (hh * 3600 + mm * 60), 0)"
proof -
  obtain h1 h2 where h: "pad2 hh = [h1, h2]" by (simp add: pad2_def)
  obtain m1 m2 where m: "pad2 mm = [m1, m2]" by (simp add: pad2_def)
  have ph: "py_int [h1, h2] = Inr hh"
    using py_int_pad2 [of hh] assms(1,2) h by simp
  have pm: "py_int [m1, m2] = Inr mm"
    using py_int_pad2 [of mm] assms(3,4) m by simp
  have strip: "strip_colons [sg, h1, h2, CHR '':'', m1, m2] = Inr [sg, h1, h2, m1, m2]"
    by (simp add: strip_colons_def)
  have z: "py_int (drop 8 [sg, h1, h2, m1, m2]
      @ replicate (6 - length (drop 8 [sg, h1, h2, m1, m2])) (CHR ''0'')) = Inr 0"
    using py_int_zeros [of sg h1 h2 m1 m2] by simp
  have "conv_z [sg, h1, h2, CHR '':'', m1, m2]
    = Inr ((if sg = CHR ''-'' then - 1 else 1) * (hh * 3600 + mm * 60), 0)"
    unfolding conv_z_def strip and_then_Inr
    using ph pm z by (simp add: Let_def)
  then show ?thesis by (simp add: h m)
qed

lemma convert_offset:
  assumes "check_date y m d" "check_time h mi s 0"
    and "0 \<le> hh" "hh \<le> 23" "0 \<le> mm" "mm \<le> 59" "sg = CHR ''+'' \<or> sg = CHR ''-''"
  shows "convert (base_groups y m d h mi s @ [(Dz, sg # pad2 hh @ CHR '':'' # pad2 mm)])
    = Inr (Datetime y m d h mi s 0
        (Some ((if sg = CHR ''-'' then - 1 else 1) * (hh * 3600 + mm * 60) * 1000000)))"
proof -
  have "\<bar>(if sg = CHR ''-'' then - 1 else 1) * (hh * 3600 + mm * 60) * 1000000\<bar>
      < 24 * 3600 * 1000000"
    using assms(3-6) by (auto simp: abs_mult)
  then show ?thesis
    using assms(1,2)
    by (simp add: convert_def group_int_def base_groups_def base_fields [OF assms(1,2)]
      conv_f_def conv_tz_def conv_z_offset [OF assms(3-7)])
qed

lemma compile_formats:
  "compile_fmt ''%Y-%m-%dT%H:%M:%SZ'' = Some (base_items @ [Lit (CHR ''Z'')])"
  "compile_fmt ''%Y-%m-%dT%H:%M:%S%z'' = Some (base_items @ [Dir Dz])"
  "compile_fmt ''%Y-%m-%dT%H:%M:%S'' = Some base_items"
  "compile_fmt ''%Y-%m-%dT%H:%M:%S.%fZ''
     = Some (base_items @ [Lit (CHR ''.''), Dir Df, Lit (CHR ''Z'')])"
  "compile_fmt ''%Y-%m-%dT%H:%M:%S.%f'' = Some (base_items @ [Lit (CHR ''.''), Dir Df])"
  by (simp_all add: base_items_def)

lemma strptime_match:
  "compile_fmt fmt = Some fs \<Longrightarrow>
   strptime (PyStr str) fmt =
     (case match_fmt fs str [] of
        None \<Rightarrow> Inl ValueError
      | Some (found, rest) \<Rightarrow> if rest \<noteq> [] then Inl ValueError else convert found)"
  by (simp add: strptime_def)

lemma sp_Z_ok:
  assumes "check_date y m d" "check_time h mi s 0"
  shows "strptime (PyStr (iso_base y m d h mi s @ ''Z'')) ''%Y-%m-%dT%H:%M:%SZ''
    = Inr (Datetime y m d h mi s 0 None)"
  by (simp add: strptime_match [OF compile_formats(1)] match_Z_ok [OF assms]
      convert_base [OF assms])

lemma sp_Z_fail:
  assumes "check_date y m d" "check_time h mi s 0"
    and "r = [] \<or> (\<exists>c r'. r = c # r' \<and> \<not> lit_match (CHR ''Z'') c)"
  shows "strptime (PyStr (iso_base y m d h mi s @ r)) ''%Y-%m-%dT%H:%M:%SZ'' = Inl ValueError"
  by (simp add: strptime_match [OF compile_formats(1)] match_Z_fail [OF assms])

lemma sp_z_ok:
  assumes "check_date y m d" "check_time h mi s 0"
    and "0 \<le> hh" "hh \<le> 23" "0 \<le> mm" "mm \<le> 59" "sg = CHR ''+'' \<or> sg = CHR ''-''"
  shows "strptime (PyStr (iso_base y m d h mi s @ sg # pad2 hh @ CHR '':'' # pad2 mm))
      ''%Y-%m-%dT%H:%M:%S%z''
    = Inr (Datetime y m d h mi s 0
        (Some ((if sg = CHR ''-'' then - 1 else 1) * (hh * 3600 + mm * 60) * 1000000)))"
  by (simp add: strptime_match [OF compile_formats(2)] match_z_ok [OF assms]
      convert_offset [OF assms])

lemma sp_z_fail:
  assumes "check_date y m d" "check_time h mi s 0" and "alts Dz r = []"
  shows "strptime (PyStr (iso_base y m d h mi s @ r)) ''%Y-%m-%dT%H:%M:%S%z'' = Inl ValueError"
  by (simp add: strptime_match [OF compile_formats(2)] match_z_fail [OF assms])

lemma sp_plain:
  assumes "check_date y m d" "check_time h mi s 0"
  shows "strptime (PyStr (iso_base y m d h mi s @ r)) ''%Y-%m-%dT%H:%M:%S''
    = (if r \<noteq> [] then Inl ValueError else Inr (Datetime y m d h mi s 0 None))"
  by (simp add: strptime_match [OF compile_formats(3)] match_plain [OF assms]
      convert_base [OF assms])

lemma sp_fZ_ok:
  assumes "check_date y m d" "check_time h mi s us"
  shows "strptime (PyStr (iso_base y m d h mi s @ CHR ''.'' # pad6 us @ ''Z''))
      ''%Y-%m-%dT%H:%M:%S.%fZ''
    = Inr (Datetime y m d h mi s us None)"
proof -
  from assms(2) have t: "check_time h mi s 0" and us: "0 \<le> us" "us \<le> 999999"
    by (auto simp: check_time_def)
  show ?thesis
    by (simp add: strptime_match [OF compile_formats(4)] match_fZ_ok [OF assms(1) t us]
      convert_frac [OF assms])
qed

lemma sp_fZ_fail:
  assumes "check_date y m d" "check_time h mi s us"
  shows "strptime (PyStr (iso_base y m d h mi s @ CHR ''.'' # pad6 us))
      ''%Y-%m-%dT%H:%M:%S.%fZ''
    = Inl ValueError"
proof -
  from assms(2) have t: "check_time h mi s 0" and us: "0 \<le> us" "us \<le> 999999"
    by (auto simp: check_time_def)
  show ?thesis
    by (simp add: strptime_match [OF compile_formats(4)] match_fZ_fail [OF assms(1) t us])
qed

lemma sp_f_ok:
  assumes "check_date y m d" "check_time h mi s us"
  shows "strptime (PyStr (iso_base y m d h mi s @ CHR ''.'' # pad6 us))
      ''%Y-%m-%dT%H:%M:%S.%f''
    = Inr (Datetime y m d h mi s us None)"
proof -
  from assms(2) have t: "check_time h mi s 0" and us: "0 \<le> us" "us \<le> 999999"
    by (auto simp: check_time_def)
  show ?thesis
    by (simp add: strptime_match [OF compile_formats(5)] match_f_ok [OF assms(1) t us]
      convert_frac [OF assms])
qed

lemma written_timestamp_parses:
  assumes date: "check_date y m d" and time: "check_time h mi s (suffix_us sfx)"
    and sfx: "suffix_ok sfx"
  shows "parse_timestamp (PyStr (iso_base y m d h mi s @ render_suffix sfx))
    = Inr (Datetime y m d h mi s (suffix_us sfx) (suffix_tz sfx))"
proof -
  from time have t: "check_time h mi s 0"
    by (auto simp: check_time_def)
  show ?thesis
  proof (cases sfx)
    case Plain
    have "strptime (PyStr (iso_base y m d h mi s @ [])) ''%Y-%m-%dT%H:%M:%SZ'' = Inl ValueError"
      by (rule sp_Z_fail [OF date t]) simp
    moreover
    have "strptime (PyStr (iso_base y m d h mi s @ [])) ''%Y-%m-%dT%H:%M:%S%z'' = Inl ValueError"
      by (rule sp_z_fail [OF date t]) (rule alts_Dz_Nil)
    moreover
    have "strptime (PyStr (iso_base y m d h mi s @ [])) ''%Y-%m-%dT%H:%M:%S''
        = Inr (Datetime y m d h mi s 0 None)"
      using sp_plain [OF date t, of "[]"] by simp
    ultimately show ?thesis
      using Plain by (simp add: parse_timestamp_def formats_def)
  next
    case Zulu
    then show ?thesis
      by (simp add: parse_timestamp_def formats_def sp_Z_ok [OF date t])
  next
    case (Offset negative hh mm)
    define sg where "sg = (if negative then CHR ''-'' else CHR ''+'')"
    have sg: "sg = CHR ''+'' \<or> sg = CHR ''-''" by (simp add: sg_def)
    from sfx Offset have b: "0 \<le> hh" "hh \<le> 23" "0 \<le> mm" "mm \<le> 59" by simp_all
    have r: "render_suffix sfx = sg # pad2 hh @ CHR '':'' # pad2 mm"
      using Offset by (simp add: sg_def)
    have "\<not> lit_match (CHR ''Z'') sg"
      using sg by (auto simp: lit_match_Z_other)
    then have "strptime (PyStr (iso_base y m d h mi s @ sg # pad2 hh @ CHR '':'' # pad2 mm))
        ''%Y-%m-%dT%H:%M:%SZ'' = Inl ValueError"
      by (intro sp_Z_fail [OF date t]) simp
    then have p: "parse_timestamp (PyStr (iso_base y m d h mi s @ sg # pad2 hh @ CHR '':'' # pad2 mm))
        = Inr (Datetime y m d h mi s 0
            (Some ((if sg = CHR ''-'' then - 1 else 1) * (hh * 3600 + mm * 60) * 1000000)))"
      by (simp add: parse_timestamp_def formats_def sp_z_ok [OF date t b sg])
    have q: "(if sg = CHR ''-'' then - 1 else 1) = (if negative then - 1 else (1 :: int))"
      by (simp add: sg_def)
    have "suffix_us sfx = 0"
      "suffix_tz sfx = Some ((if sg = CHR ''-'' then - 1 else 1) * (hh * 3600 + mm * 60) * 1000000)"
      using Offset by (simp_all only: suffix_us.simps suffix_tz.simps q)
    with p r show ?thesis by (simp only:)
  next
    case (Frac us)
    with time have tu: "check_time h mi s us" by simp
    have "strptime (PyStr (iso_base y m d h mi s @ CHR ''.'' # pad6 us)) ''%Y-%m-%dT%H:%M:%SZ''
        = Inl ValueError"
      by (rule sp_Z_fail [OF date t]) (simp add: lit_match_Z_other)
    moreover
    have "strptime (PyStr (iso_base y m d h mi s @ CHR ''.'' # pad6 us)) ''%Y-%m-%dT%H:%M:%S%z''
        = Inl ValueError"
      by (rule sp_z_fail [OF date t]) (rule alts_Dz_dot)
    moreover
    have "strptime (PyStr (iso_base y m d h mi s @ CHR ''.'' # pad6 us)) ''%Y-%m-%dT%H:%M:%S''
        = Inl ValueError"
      by (simp add: sp_plain [OF date t])
    ultimately show ?thesis
      using Frac
      by (simp add: parse_timestamp_def formats_def sp_fZ_fail [OF date tu] sp_f_ok [OF date tu])
  next
    case (FracZulu us)
    with time have tu: "check_time h mi s us" by simp
    have "strptime (PyStr (iso_base y m d h mi s @ CHR ''.'' # pad6 us @ ''Z''))
        ''%Y-%m-%dT%H:%M:%SZ'' = Inl ValueError"
      by (rule sp_Z_fail [OF date t]) (simp add: lit_match_Z_other)
    moreover
    have "strptime (PyStr (iso_base y m d h mi s @ CHR ''.'' # pad6 us @ ''Z''))
        ''%Y-%m-%dT%H:%M:%S%z'' = Inl ValueError"
      by (rule sp_z_fail [OF date t]) (rule alts_Dz_dot)
    moreover
    have "strptime (PyStr (iso_base y m d h mi s @ CHR ''.'' # pad6 us @ ''Z''))
        ''%Y-%m-%dT%H:%M:%S'' = Inl ValueError"
      by (simp add: sp_plain [OF date t])
    ultimately show ?thesis
      using FracZulu
      by (simp add: parse_timestamp_def formats_def sp_fZ_ok [OF date tu])
  qed
qed

lemma py_int_exn: "py_int s = Inl e \<Longrightarrow> e = ValueError"
  by (auto simp: py_int_def Let_def split: if_splits)

lemma group_int_exn: "group_int found D dflt = Inl e \<Longrightarrow> e = ValueError"
  by (auto simp: group_int_def dest: py_int_exn split: option.splits)

lemma conv_f_exn: "conv_f found = Inl e \<Longrightarrow> e = ValueError"
  by (auto simp: conv_f_def dest: py_int_exn split: option.splits)

lemma strip_colons_exn: "strip_colons z = Inl e \<Longrightarrow> e = ValueError"
  by (auto simp: strip_colons_def Let_def split: if_splits)

lemma conv_z_exn: "conv_z z = Inl e \<Longrightarrow> e = ValueError"
  by (auto simp: conv_z_def and_then_Inl_iff Let_def
      dest: py_int_exn strip_colons_exn split: if_splits)

lemma conv_tz_exn: "conv_tz found = Inl e \<Longrightarrow> e = ValueError"
  by (auto simp: conv_tz_def Let_def dest: conv_z_exn split: option.splits sum.splits if_splits)

lemma convert_exn: "convert found = Inl e \<Longrightarrow> e = ValueError"
  by (auto simp: convert_def and_then_Inl_iff
      dest: group_int_exn conv_f_exn conv_tz_exn split: if_splits)

lemma strptime_exn: "strptime (PyStr str) fmt = Inl e \<Longrightarrow> e = ValueError"
  by (auto simp: strptime_def dest: convert_exn split: option.splits if_splits)

lemma try_formats_exn: "try_formats (PyStr str) fmts = Inl e \<Longrightarrow> e = ValueError"
  by (induction fmts) (auto dest: strptime_exn split: sum.splits if_splits)

lemma try_formats_none:
  "list_all (\<lambda>fmt. strptime ts fmt = Inl ValueError) fmts \<Longrightarrow> try_formats ts fmts = Inl ValueError"
  by (induction fmts) auto

lemma bad_timestamp_rejected:
  assumes "map_of kvs ''start_time'' = Some st" "map_of kvs ''end_time'' = Some en"
    and "map_of kvs ''mode'' = Some mode" "map_of kvs ''rate_kw'' = Some rate"
    and "parse_timestamp st = Inl ValueError
         \<or> (\<exists>t. parse_timestamp st = Inr t) \<and> parse_timestamp en = Inl ValueError"
  shows "validate_schedule_entry F v (PyDict kvs) index
    = Inr (False, Some (InvalidTimestampFormat index))"
proof -
  from assms(5) have "validate_timestamps st en index
      = Inr (False, Some (InvalidTimestampFormat index))"
    by (auto simp: validate_timestamps_def except_ValueError_def)
  with assms(1-4) show ?thesis
    by (simp add: validate_schedule_entry_def required_fields_def dict_get_def)
qed




end
